theory Spec2Isabelle
  imports Complex_Main "HOL-Library.Product_Lexorder"
begin

section \<open>The calendar of Python's \<open>datetime\<close> module\<close>

text \<open>
  \<open>export_pdf\<close> computes the billing period with \<open>datetime.replace\<close>, the
  \<open>datetime\<close> constructor and \<open>datetime + timedelta\<close>. The definitions of this
  section follow the library's pure-Python implementation: the proleptic Gregorian
  calendar, years \<open>MINYEAR..MAXYEAR\<close>, a \<open>ValueError\<close> for a field out of range and an
  \<open>OverflowError\<close> for a sum that leaves the range.
\<close>

datatype error = ValueError | OverflowError

definition MINYEAR :: int where
  "MINYEAR = 1"

definition MAXYEAR :: int where
  "MAXYEAR = 9999"

definition is_leap :: "int \<Rightarrow> bool" where
  "is_leap y = (y mod 4 = 0 \<and> (y mod 100 \<noteq> 0 \<or> y mod 400 = 0))"

definition DAYS_IN_MONTH :: "int list" where
  "DAYS_IN_MONTH = [-1, 31, 28, 31, 30, 31, 30, 31, 31, 30, 31, 30, 31]"

definition DAYS_BEFORE_MONTH :: "int list" where
  "DAYS_BEFORE_MONTH = [-1, 0, 31, 59, 90, 120, 151, 181, 212, 243, 273, 304, 334]"

text \<open>Both tables are read at a month in \<open>1..12\<close> only (the callers check it first).\<close>

definition days_in_month :: "int \<Rightarrow> int \<Rightarrow> int" where
  "days_in_month y m = (if m = 2 \<and> is_leap y then 29 else DAYS_IN_MONTH ! nat m)"

definition days_before_month :: "int \<Rightarrow> int \<Rightarrow> int" where
  "days_before_month y m =
     DAYS_BEFORE_MONTH ! nat m + (if m > 2 \<and> is_leap y then 1 else 0)"

definition days_before_year :: "int \<Rightarrow> int" where
  "days_before_year y0 =
     (let y = y0 - 1 in y * 365 + y div 4 - y div 100 + y div 400)"

type_synonym date = "int \<times> int \<times> int"

text \<open>The proleptic Gregorian ordinal of a date, 0001-01-01 being day 1.\<close>

fun ymd2ord :: "date \<Rightarrow> int" where
  "ymd2ord (y, m, d) = days_before_year y + days_before_month y m + d"

record datetime =
  year :: int
  month :: int
  day :: int
  hour :: int
  minute :: int
  second :: int
  microsecond :: int

definition check_date_fields :: "int \<Rightarrow> int \<Rightarrow> int \<Rightarrow> bool" where
  "check_date_fields y m d =
     (MINYEAR \<le> y \<and> y \<le> MAXYEAR \<and> 1 \<le> m \<and> m \<le> 12 \<and> 1 \<le> d \<and> d \<le> days_in_month y m)"

definition check_time_fields :: "int \<Rightarrow> int \<Rightarrow> int \<Rightarrow> int \<Rightarrow> bool" where
  "check_time_fields hh mm ss us =
     (0 \<le> hh \<and> hh \<le> 23 \<and> 0 \<le> mm \<and> mm \<le> 59 \<and> 0 \<le> ss \<and> ss \<le> 59 \<and> 0 \<le> us \<and> us \<le> 999999)"

text \<open>The constructor \<open>datetime(year, month, day, hour, minute, second, microsecond)\<close>.\<close>

definition datetime_new ::
  "int \<Rightarrow> int \<Rightarrow> int \<Rightarrow> int \<Rightarrow> int \<Rightarrow> int \<Rightarrow> int \<Rightarrow> error + datetime" where
  "datetime_new y m d hh mm ss us =
     (if check_date_fields y m d \<and> check_time_fields hh mm ss us
      then Inr \<lparr>year = y, month = m, day = d, hour = hh, minute = mm, second = ss,
                microsecond = us\<rparr>
      else Inl ValueError)"

text \<open>
  \<open>dt.replace(year=.., month=.., day=..)\<close>: a keyword that is not given (\<open>None\<close>) keeps
  the field of \<open>dt\<close>; the new value goes through the constructor and its checks.
\<close>

definition replace :: "datetime \<Rightarrow> int option \<Rightarrow> int option \<Rightarrow> int option \<Rightarrow> error + datetime" where
  "replace dt y m d =
     datetime_new (case y of None \<Rightarrow> year dt | Some v \<Rightarrow> v)
                  (case m of None \<Rightarrow> month dt | Some v \<Rightarrow> v)
                  (case d of None \<Rightarrow> day dt | Some v \<Rightarrow> v)
                  (hour dt) (minute dt) (second dt) (microsecond dt)"

text \<open>Every value of Python's \<open>datetime\<close> type satisfies the constructor's checks.\<close>

definition valid_datetime :: "datetime \<Rightarrow> bool" where
  "valid_datetime dt =
     (check_date_fields (year dt) (month dt) (day dt) \<and>
      check_time_fields (hour dt) (minute dt) (second dt) (microsecond dt))"

text \<open>\<open>dt.date()\<close>, compared as Python compares dates: year, then month, then day.\<close>

definition date_of :: "datetime \<Rightarrow> date" where
  "date_of dt = (year dt, month dt, day dt)"

text \<open>Python compares two datetimes field by field, the date first.\<close>

definition dt_key :: "datetime \<Rightarrow> date \<times> int \<times> int \<times> int \<times> int" where
  "dt_key dt = (date_of dt, hour dt, minute dt, second dt, microsecond dt)"

text \<open>
  \<open>dt + timedelta(days=n)\<close> for \<open>n \<ge> 0\<close>. The library adds \<open>n\<close> to the ordinal of the
  date, raises \<open>OverflowError\<close> unless the sum lies in \<open>1.._MAXORDINAL\<close>, and returns the
  date of that ordinal with the time of day of \<open>dt\<close>. The date of the ordinal is reached
  here by moving \<open>n\<close> days on through the calendar; lemma \<open>add_days_unique\<close> below shows
  that this is the one date with that ordinal.
\<close>

definition MAXORDINAL :: int where
  "MAXORDINAL = ymd2ord (MAXYEAR, 12, 31)"

fun next_day :: "date \<Rightarrow> date" where
  "next_day (y, m, d) =
     (if d < days_in_month y m then (y, m, d + 1)
      else if m < 12 then (y, m + 1, 1)
      else (y + 1, 1, 1))"

fun add_days :: "nat \<Rightarrow> date \<Rightarrow> date" where
  "add_days 0 dt = dt"
| "add_days (Suc n) dt = add_days n (next_day dt)"

definition add_timedelta_days :: "datetime \<Rightarrow> nat \<Rightarrow> error + datetime" where
  "add_timedelta_days dt n =
     (let days = ymd2ord (date_of dt) + int n
      in if 0 < days \<and> days \<le> MAXORDINAL
         then (case add_days n (date_of dt) of
                 (y, m, d) \<Rightarrow> Inr (dt\<lparr>year := y, month := m, day := d\<rparr>))
         else Inl OverflowError)"

section \<open>The billing period of \<open>export_pdf\<close>\<close>

text \<open>
  \<open>today\<close> is the reading of the clock (\<open>datetime.today()\<close>), a parameter here. The three
  values are the variables \<open>bill_start\<close>, \<open>bill_end\<close> and \<open>due_date\<close> of \<open>export_pdf\<close>.
\<close>

definition bill_start :: "datetime \<Rightarrow> error + datetime" where
  "bill_start today =
     (if day today \<ge> 13 then replace today None None (Some 13)
      else if month today = 1 then replace today (Some (year today - 1)) (Some 12) (Some 13)
      else replace today None (Some (month today - 1)) (Some 13))"

definition bill_end :: "datetime \<Rightarrow> error + datetime" where
  "bill_end bs =
     (let next_month = month bs mod 12 + 1;
          y = year bs + (if next_month = 1 then 1 else 0)
      in datetime_new y next_month 12 0 0 0 0)"

definition due_date :: "datetime \<Rightarrow> error + datetime" where
  "due_date bs = add_timedelta_days bs 50"

definition billing_period :: "datetime \<Rightarrow> error + (datetime \<times> datetime \<times> datetime)" where
  "billing_period today =
     (case bill_start today of
        Inl e \<Rightarrow> Inl e
      | Inr bs \<Rightarrow>
          (case bill_end bs of
             Inl e \<Rightarrow> Inl e
           | Inr be \<Rightarrow>
               (case due_date bs of
                  Inl e \<Rightarrow> Inl e
                | Inr due \<Rightarrow> Inr (bs, be, due))))"


section \<open>Text values\<close>

text \<open>
  A Python \<open>str\<close> is a sequence of Unicode code points, and \<open>len\<close> and slicing count
  code points; a text is therefore a list of code points here. \<open>lit\<close> turns a literal
  into one.
\<close>

type_synonym str = "nat list"

definition lit :: "string \<Rightarrow> str" where
  "lit s = map of_char s"

text \<open>
  The column \<open>timestamp\<close> is declared \<open>TEXT\<close> and both bounds of the \<open>BETWEEN\<close> are
  bound as Python strings, so SQLite compares them as texts with its default collation:
  position by position, a proper prefix being smaller. (It compares the UTF-8 bytes,
  which order texts as their code points do.)
\<close>

fun text_le :: "str \<Rightarrow> str \<Rightarrow> bool" where
  "text_le [] ys = True"
| "text_le (x # xs) [] = False"
| "text_le (x # xs) (y # ys) = (x < y \<or> (x = y \<and> text_le xs ys))"

text \<open>\<open>x BETWEEN lo AND hi\<close> is \<open>x >= lo AND x <= hi\<close>.\<close>

definition sql_between :: "str \<Rightarrow> str \<Rightarrow> str \<Rightarrow> bool" where
  "sql_between x lo hi = (text_le lo x \<and> text_le x hi)"

text \<open>
  \<open>dt.isoformat()\<close> of a datetime without time zone: \<open>YYYY-MM-DDTHH:MM:SS\<close>, followed by
  \<open>.ffffff\<close> when the microsecond is not 0. \<open>zero_pad w n\<close> is \<open>'%0wd' % n\<close> for
  \<open>0 \<le> n < 10 ^ w\<close>, which the constructor's checks guarantee for every field.
\<close>

definition digit :: "int \<Rightarrow> nat" where
  "digit n = 48 + nat (n mod 10)"

fun zero_pad :: "nat \<Rightarrow> int \<Rightarrow> str" where
  "zero_pad 0 n = []"
| "zero_pad (Suc w) n = zero_pad w (n div 10) @ [digit n]"

definition isoformat :: "datetime \<Rightarrow> str" where
  "isoformat dt =
     zero_pad 4 (year dt) @ lit ''-'' @ zero_pad 2 (month dt) @ lit ''-'' @
     zero_pad 2 (day dt) @ lit ''T'' @
     zero_pad 2 (hour dt) @ lit '':'' @ zero_pad 2 (minute dt) @ lit '':'' @
     zero_pad 2 (second dt) @
     (if microsecond dt \<noteq> 0 then lit ''.'' @ zero_pad 6 (microsecond dt) else [])"

section \<open>Amounts: the floats of Python\<close>

text \<open>
  The column \<open>amount\<close> is declared \<open>REAL\<close>, \<open>st.number_input\<close> with \<open>min_value=0.0\<close> hands a
  Python \<open>float\<close> to \<open>add_transaction\<close>, and the query hands Python floats back: an
  amount is an IEEE 754 binary64 value. \<open>Finite m e\<close> stands for the number \<open>m * 2^e\<close>; the
  finite binary64 values are the numbers that can be written so with \<open>\<bar>m\<bar> < 2^53\<close>,
  \<open>-1074 \<le> e\<close> and \<open>\<bar>m\<bar> * 2^e < 2^1024\<close>. A whole number \<open>n\<close> below \<open>2^53\<close> is
  \<open>Finite n 0\<close>; \<open>0.1\<close> is \<open>Finite 3602879701896397 (-55)\<close>, as
  \<open>(0.1).as_integer_ratio()\<close> tells. The sign of a zero is not kept.
\<close>

datatype float = Finite int int | PosInf | NegInf | NaN

text \<open>\<open>n.bit_length()\<close> of an integer \<open>n \<ge> 0\<close>.\<close>

function bit_length :: "int \<Rightarrow> int" where
  "bit_length n = (if n \<le> 0 then 0 else 1 + bit_length (n div 2))"
  by pat_completeness auto
termination by (relation "measure nat") auto

declare bit_length.simps [simp del]

text \<open>
  \<open>n / 2^k\<close> rounded to the nearest integer, a tie to the even one (\<open>div\<close> and \<open>mod\<close>
  round down, for negative \<open>n\<close> too).
\<close>

definition round_half_even :: "int \<Rightarrow> int \<Rightarrow> int" where
  "round_half_even n k =
     (if k \<le> 0 then n
      else if 2 ^ nat (k - 1) < n mod 2 ^ nat k \<or>
              (n mod 2 ^ nat k = 2 ^ nat (k - 1) \<and> (n div 2 ^ nat k) mod 2 = 1)
           then n div 2 ^ nat k + 1
           else n div 2 ^ nat k)"

text \<open>
  The binary64 value nearest to \<open>m * 2^e\<close>, ties to even, for \<open>e \<ge> -1074\<close>: a mantissa of
  more than 53 bits is rounded to 53 bits, and a result of magnitude \<open>2^1024\<close> or more is
  an infinity. (With \<open>e \<ge> -1074\<close> a number that needs rounding is at least \<open>2^(-1021)\<close>,
  so that no rounding happens among the subnormal numbers.)
\<close>

definition round_double :: "int \<Rightarrow> int \<Rightarrow> float" where
  "round_double m e =
     (let k = max 0 (bit_length \<bar>m\<bar> - 53);
          m' = round_half_even m k;
          e' = e + k
      in if 1024 < bit_length \<bar>m'\<bar> + e'
         then (if m < 0 then NegInf else PosInf)
         else Finite m' e')"

text \<open>
  \<open>x + y\<close> on floats: the exact sum of two finite values, rounded once; the sum with
  an infinity or with \<open>nan\<close> as IEEE 754 gives it.
\<close>

fun fadd :: "float \<Rightarrow> float \<Rightarrow> float" where
  "fadd (Finite m1 e1) (Finite m2 e2) =
     round_double (m1 * 2 ^ nat (e1 - min e1 e2) + m2 * 2 ^ nat (e2 - min e1 e2)) (min e1 e2)"
| "fadd NaN y = NaN"
| "fadd x NaN = NaN"
| "fadd PosInf NegInf = NaN"
| "fadd NegInf PosInf = NaN"
| "fadd PosInf y = PosInf"
| "fadd NegInf y = NegInf"
| "fadd (Finite m e) y = y"

fun fneg :: "float \<Rightarrow> float" where
  "fneg (Finite m e) = Finite (- m) e"
| "fneg PosInf = NegInf"
| "fneg NegInf = PosInf"
| "fneg NaN = NaN"

text \<open>\<open>x - y\<close> on floats.\<close>

definition fsub :: "float \<Rightarrow> float \<Rightarrow> float" where
  "fsub x y = fadd x (fneg y)"

text \<open>\<open>fabs(x) >= fabs(y)\<close>, false when one of the two is \<open>nan\<close>.\<close>

fun fabs_ge :: "float \<Rightarrow> float \<Rightarrow> bool" where
  "fabs_ge (Finite m1 e1) (Finite m2 e2) =
     (\<bar>m2\<bar> * 2 ^ nat (e2 - min e1 e2) \<le> \<bar>m1\<bar> * 2 ^ nat (e1 - min e1 e2))"
| "fabs_ge NaN y = False"
| "fabs_ge x NaN = False"
| "fabs_ge (Finite m e) y = False"
| "fabs_ge x y = True"

text \<open>\<open>c && isfinite(c)\<close>.\<close>

fun nonzero_finite :: "float \<Rightarrow> bool" where
  "nonzero_finite (Finite m e) = (m \<noteq> 0)"
| "nonzero_finite x = False"

text \<open>
  The builtin \<open>sum\<close> on a sequence of floats. It starts from the integer 0 and returns it
  for an empty sequence (\<open>Finite 0 0\<close> here: the integer 0 and the float 0.0 are the same
  number and print alike). Up to CPython 3.11 it adds the floats from left to right.
  From CPython 3.12 on it keeps, beside the running sum \<open>f\<close>, a compensation \<open>c\<close> of the
  rounding errors (Neumaier's summation, in \<open>builtin_sum_impl\<close>), and adds \<open>c\<close> at the end
  when it is finite and not zero. The program does not say which interpreter runs it,
  so the version is a parameter.
\<close>

datatype python = Before_3_12 | From_3_12

fun sum_neumaier :: "float \<Rightarrow> float \<Rightarrow> float list \<Rightarrow> float" where
  "sum_neumaier f c [] = (if nonzero_finite c then fadd f c else f)"
| "sum_neumaier f c (x # xs) =
     sum_neumaier (fadd f x)
       (if fabs_ge f x then fadd c (fadd (fsub f (fadd f x)) x)
        else fadd c (fadd (fsub x (fadd f x)) f))
       xs"

fun py_sum :: "python \<Rightarrow> float list \<Rightarrow> float" where
  "py_sum py [] = Finite 0 0"
| "py_sum Before_3_12 (x # xs) = foldl fadd (fadd (Finite 0 0) x) xs"
| "py_sum From_3_12 (x # xs) = sum_neumaier (fadd (Finite 0 0) x) (Finite 0 0) xs"

text \<open>The number that a float stands for; an infinity and \<open>nan\<close> stand for none.\<close>

fun float_value :: "float \<Rightarrow> real option" where
  "float_value (Finite m e) =
     Some (if 0 \<le> e then of_int m * 2 ^ nat e else of_int m / 2 ^ nat (- e))"
| "float_value x = None"

text \<open>
  The sum of a list of floats as a sum of numbers, without any rounding; none when one
  of them stands for no number.
\<close>

fun exact_sum :: "float list \<Rightarrow> real option" where
  "exact_sum [] = Some 0"
| "exact_sum (x # xs) =
     (case float_value x of
        None \<Rightarrow> None
      | Some v \<Rightarrow> (case exact_sum xs of None \<Rightarrow> None | Some w \<Rightarrow> Some (v + w)))"

section \<open>The database\<close>

text \<open>
  A row of the table \<open>transactions\<close>, with its columns \<open>id\<close>, \<open>user_id\<close>, \<open>amount\<close>,
  \<open>type\<close>, \<open>description\<close> and \<open>timestamp\<close>. The application never stores a \<open>NULL\<close>
  in any of them.
\<close>

record transaction =
  txn_id :: int
  user_id :: int
  amount :: float
  txn_type :: str
  description :: str
  timestamp :: str

text \<open>A row of \<open>users\<close>: \<open>(id, name, email, password)\<close>, read by index in the source.\<close>

type_synonym user = "int \<times> str \<times> str \<times> str"

text \<open>A row of the query of \<open>export_pdf\<close>: \<open>(amount, type, description, timestamp)\<close>.\<close>

type_synonym line_item = "float \<times> str \<times> str \<times> str"

text \<open>
  The state behind the shared connection: both tables in rowid order, the counter of
  \<open>AUTOINCREMENT\<close> for \<open>transactions\<close>, and the rows that the shared cursor has selected
  and not yet handed out.
\<close>

record db =
  users :: "user list"
  transactions :: "transaction list"
  last_txn_id :: int
  cursor :: "line_item list"

text \<open>\<open>add_transaction\<close>; \<open>now\<close> is the reading of the clock (\<open>datetime.now()\<close>).\<close>

definition add_transaction :: "db \<Rightarrow> int \<Rightarrow> float \<Rightarrow> str \<Rightarrow> str \<Rightarrow> datetime \<Rightarrow> db" where
  "add_transaction s uid amt ty descr now =
     s\<lparr>transactions := transactions s @
          [\<lparr>txn_id = last_txn_id s + 1, user_id = uid, amount = amt, txn_type = ty,
            description = descr, timestamp = isoformat now\<rparr>],
       last_txn_id := last_txn_id s + 1,
       cursor := []\<rparr>"

text \<open>
  \<open>delete_transaction(user_id, transaction_id)\<close>:
  \<open>DELETE FROM transactions WHERE id = ? AND user_id = ?\<close>.
\<close>

definition delete_transaction :: "db \<Rightarrow> int \<Rightarrow> int \<Rightarrow> db" where
  "delete_transaction s uid transaction_id =
     s\<lparr>transactions :=
          filter (\<lambda>t. \<not> (txn_id t = transaction_id \<and> user_id t = uid)) (transactions s),
       cursor := []\<rparr>"

text \<open>
  The query of \<open>export_pdf\<close>,
  \<open>SELECT amount, type, description, timestamp FROM transactions
    WHERE user_id = ? AND timestamp BETWEEN ? AND ?\<close>,
  and \<open>cursor.fetchall()\<close>, which hands out the selected rows and leaves none.
\<close>

definition execute_select :: "db \<Rightarrow> int \<Rightarrow> str \<Rightarrow> str \<Rightarrow> db" where
  "execute_select s uid lo hi =
     s\<lparr>cursor :=
          map (\<lambda>t. (amount t, txn_type t, description t, timestamp t))
            (filter (\<lambda>t. user_id t = uid \<and> sql_between (timestamp t) lo hi) (transactions s))\<rparr>"

definition fetchall :: "db \<Rightarrow> line_item list \<times> db" where
  "fetchall s = (cursor s, s\<lparr>cursor := []\<rparr>)"

section \<open>The statement of \<open>export_pdf\<close>\<close>

text \<open>
  \<open>sum(t[0] for t in transactions if t[1] == 'debit')\<close>, in the interpreter \<open>py\<close>.
\<close>

definition total_due_of :: "python \<Rightarrow> line_item list \<Rightarrow> float" where
  "total_due_of py rows = py_sum py (map fst (filter (\<lambda>t. fst (snd t) = lit ''debit'') rows))"

text \<open>
  \<open>(t[2][:30] + '...') if len(t[2]) > 33 else t[2]\<close>, the text of the description
  cell of a line.
\<close>

definition format_description :: "str \<Rightarrow> str" where
  "format_description d = (if length d > 33 then take 30 d @ lit ''...'' else d)"

text \<open>
  What \<open>export_pdf\<close> hands to the PDF writer: the name and the email of the user, the
  three dates of the header (\<open>bill_start.date()\<close>, \<open>bill_end.date()\<close>,
  \<open>due_date.date()\<close>), the fetched rows in their order, the description cell of each
  row, and the total. The PDF writer is not part of the model: not the layout of the
  cells, not the errors it may raise, not the file that is written and removed, not
  the download link.
\<close>

record statement =
  user_name :: str
  user_email :: str
  period_start :: date
  period_end :: date
  period_due :: date
  line_items :: "line_item list"
  description_cells :: "str list"
  total_due :: float

text \<open>
  \<open>export_pdf(user)\<close>. The reading \<open>today\<close> of the clock is a parameter, and so is the
  interpreter \<open>py\<close>, which matters for the total only. Of the row
  \<open>user\<close> the function reads \<open>user[0]\<close>, \<open>user[1]\<close> and \<open>user[2]\<close>; what follows them
  (the password in a row of \<open>SELECT *\<close>, nothing in a row of
  \<open>SELECT id, name, email\<close>) is not read. The period is computed before the query, so
  an error of the library leaves the cursor as it was.
\<close>

definition export_pdf ::
  "python \<Rightarrow> db \<Rightarrow> int \<times> str \<times> str \<times> 'a \<Rightarrow> datetime \<Rightarrow> error + (statement \<times> db)" where
  "export_pdf py s usr today =
     (case billing_period today of
        Inl e \<Rightarrow> Inl e
      | Inr (bs, be, due) \<Rightarrow>
          (case usr of (uid, name, email, rest) \<Rightarrow>
             (case fetchall (execute_select s uid (isoformat bs) (isoformat be)) of
                (rows, s') \<Rightarrow>
                  Inr (\<lparr>user_name = name, user_email = email,
                        period_start = date_of bs, period_end = date_of be,
                        period_due = date_of due,
                        line_items = rows,
                        description_cells = map (\<lambda>t. format_description (fst (snd (snd t)))) rows,
                        total_due = total_due_of py rows\<rparr>, s'))))"

section \<open>Dates on the calendar\<close>

text \<open>A month and a day that exist, in any year.\<close>

definition on_calendar :: "date \<Rightarrow> bool" where
  "on_calendar dt =
     (case dt of (y, m, d) \<Rightarrow> 1 \<le> m \<and> m \<le> 12 \<and> 1 \<le> d \<and> d \<le> days_in_month y m)"

section \<open>A small ledger for the worked examples\<close>

text \<open>
  Two users and four transactions with the amounts 100, 50, 999 and 75, and a reading of
  the clock on 20 December 2024 at 09:30. The billing period of that day runs from 13 December to 12 January: the first
  two transactions fall into it, the last two lie before it.
\<close>

definition asha :: user where
  "asha = (1, lit ''Asha'', lit ''asha@example.com'', lit ''pw1'')"

definition ravi :: user where
  "ravi = (2, lit ''Ravi'', lit ''ravi@example.com'', lit ''pw2'')"

definition ledger :: db where
  "ledger =
     \<lparr>users = [asha, ravi],
      transactions =
        [\<lparr>txn_id = 1, user_id = 1, amount = Finite 100 0, txn_type = lit ''credit'',
          description = lit ''Refund'',
          timestamp = lit ''2024-12-15T10:00:00.000001''\<rparr>,
         \<lparr>txn_id = 2, user_id = 1, amount = Finite 50 0, txn_type = lit ''debit'',
          description = lit ''Annual maintenance contract for the lift'',
          timestamp = lit ''2024-12-16T11:00:00.000002''\<rparr>,
         \<lparr>txn_id = 3, user_id = 1, amount = Finite 999 0, txn_type = lit ''debit'',
          description = lit ''Rent'',
          timestamp = lit ''2024-11-30T12:00:00.000003''\<rparr>,
         \<lparr>txn_id = 4, user_id = 2, amount = Finite 75 0, txn_type = lit ''debit'',
          description = lit ''Books'',
          timestamp = lit ''2024-11-01T08:00:00.000004''\<rparr>],
      last_txn_id = 4,
      cursor = []\<rparr>"

definition dec_20 :: datetime where
  "dec_20 = \<lparr>year = 2024, month = 12, day = 20, hour = 9, minute = 30, second = 0,
              microsecond = 0\<rparr>"

definition asha_statement :: statement where
  "asha_statement =
     \<lparr>user_name = lit ''Asha'', user_email = lit ''asha@example.com'',
      period_start = (2024, 12, 13), period_end = (2025, 1, 12),
      period_due = (2025, 2, 1),
      line_items =
        [(Finite 100 0, lit ''credit'', lit ''Refund'', lit ''2024-12-15T10:00:00.000001''),
         (Finite 50 0, lit ''debit'', lit ''Annual maintenance contract for the lift'',
          lit ''2024-12-16T11:00:00.000002'')],
      description_cells = [lit ''Refund'', lit ''Annual maintenance contract fo...''],
      total_due = Finite 50 0\<rparr>"

definition ravi_statement :: statement where
  "ravi_statement =
     \<lparr>user_name = lit ''Ravi'', user_email = lit ''ravi@example.com'',
      period_start = (2024, 12, 13), period_end = (2025, 1, 12),
      period_due = (2025, 2, 1),
      line_items = [], description_cells = [], total_due = Finite 0 0\<rparr>"

section \<open>Facts about the calendar\<close>

text \<open>
  The ordinal grows by one from each day to the next, also across the end of a month
  and of a year, and it orders the dates of the calendar as Python compares them.
\<close>

lemma div_step:
  fixes n :: int
  assumes "0 < k"
  shows "(n + 1) div k = n div k + (if (n + 1) mod k = 0 then 1 else 0)"
proof -
  have n: "n + 1 = k * (n div k) + (n mod k + 1)" by simp
  have r: "0 \<le> n mod k" "n mod k < k" using assms by simp_all
  show ?thesis
  proof (cases "n mod k + 1 = k")
    case True
    with n have "n + 1 = k * (n div k) + k" by simp
    then have "n + 1 = k * (n div k + 1)" by (simp add: distrib_left)
    then show ?thesis using assms by simp
  next
    case False
    with r have lt: "n mod k + 1 < k" by simp
    from r have nn: "0 \<le> n mod k + 1" by simp
    have "(n + 1) div k = n div k"
      using n nn lt by (rule int_div_pos_eq)
    moreover have "(n + 1) mod k = n mod k + 1"
      using n nn lt by (rule int_mod_pos_eq)
    ultimately show ?thesis using r by simp
  qed
qed

lemma mod_100_4: "(y::int) mod 100 = 0 \<Longrightarrow> y mod 4 = 0"
  using mod_mod_cancel [of 4 100 y] by simp

lemma mod_400_100: "(y::int) mod 400 = 0 \<Longrightarrow> y mod 100 = 0"
  using mod_mod_cancel [of 100 400 y] by simp

lemma days_before_year_step:
  "days_before_year (y + 1) = days_before_year y + (if is_leap y then 366 else 365)"
proof -
  have d4: "y div 4 = (y - 1) div 4 + (if y mod 4 = 0 then 1 else 0)"
    using div_step [of 4 "y - 1"] by simp
  have d100: "y div 100 = (y - 1) div 100 + (if y mod 100 = 0 then 1 else 0)"
    using div_step [of 100 "y - 1"] by simp
  have d400: "y div 400 = (y - 1) div 400 + (if y mod 400 = 0 then 1 else 0)"
    using div_step [of 400 "y - 1"] by simp
  have eq: "days_before_year (y + 1) = y * 365 + y div 4 - y div 100 + y div 400"
    by (simp add: days_before_year_def)
  have old: "days_before_year y = (y - 1) * 365 + (y - 1) div 4 - (y - 1) div 100 + (y - 1) div 400"
    by (simp add: days_before_year_def Let_def)
  consider (c400) "y mod 400 = 0" | (c100) "y mod 400 \<noteq> 0" "y mod 100 = 0"
    | (c4) "y mod 100 \<noteq> 0" "y mod 4 = 0" | (c1) "y mod 4 \<noteq> 0"
    by blast
  then show ?thesis
  proof cases
    case c400
    then have "y mod 100 = 0" "y mod 4 = 0" "is_leap y"
      using mod_400_100 [of y] mod_100_4 [of y] by (simp_all add: is_leap_def)
    with c400 show ?thesis unfolding eq old d4 d100 d400 by (simp add: algebra_simps)
  next
    case c100
    then have "y mod 4 = 0" "\<not> is_leap y"
      using mod_100_4 [of y] by (simp_all add: is_leap_def)
    with c100 show ?thesis unfolding eq old d4 d100 d400 by (simp add: algebra_simps)
  next
    case c4
    then have "y mod 400 \<noteq> 0" "is_leap y"
      using mod_400_100 [of y] by (auto simp add: is_leap_def)
    with c4 show ?thesis unfolding eq old d4 d100 d400 by (simp add: algebra_simps)
  next
    case c1
    then have "y mod 100 \<noteq> 0" "y mod 400 \<noteq> 0" "\<not> is_leap y"
      using mod_400_100 [of y] mod_100_4 [of y] by (auto simp add: is_leap_def)
    with c1 show ?thesis unfolding eq old d4 d100 d400 by (simp add: algebra_simps)
  qed
qed


lemma month_cases:
  fixes m :: int
  assumes "1 \<le> m" "m \<le> 12"
  shows "m = 1 \<or> m = 2 \<or> m = 3 \<or> m = 4 \<or> m = 5 \<or> m = 6 \<or> m = 7 \<or> m = 8 \<or> m = 9 \<or> m = 10 \<or> m = 11 \<or> m = 12"
  using assms by arith

lemma days_in_month_bounds:
  assumes "1 \<le> m" "m \<le> 12"
  shows "28 \<le> days_in_month y m \<and> days_in_month y m \<le> 31"
  using month_cases [OF assms]
  by (auto simp: days_in_month_def DAYS_IN_MONTH_def)

lemma days_before_month_step:
  assumes "1 \<le> m" "m < 12"
  shows "days_before_month y (m + 1) = days_before_month y m + days_in_month y m"
proof -
  from assms have "m = 1 \<or> m = 2 \<or> m = 3 \<or> m = 4 \<or> m = 5 \<or> m = 6 \<or> m = 7 \<or> m = 8 \<or> m = 9 \<or> m = 10 \<or> m = 11"
    by arith
  then show ?thesis
    by (auto simp: days_before_month_def days_in_month_def DAYS_IN_MONTH_def DAYS_BEFORE_MONTH_def)
qed

lemma december_end:
  "days_before_month y 12 + days_in_month y 12 = (if is_leap y then 366 else 365)"
  by (simp add: days_before_month_def days_in_month_def DAYS_IN_MONTH_def DAYS_BEFORE_MONTH_def)

lemma ymd2ord_next_day:
  assumes "on_calendar dt"
  shows "ymd2ord (next_day dt) = ymd2ord dt + 1"
proof (cases dt)
  case (fields y m d)
  with assms have m: "1 \<le> m" "m \<le> 12" and d: "1 \<le> d" "d \<le> days_in_month y m"
    by (simp_all add: on_calendar_def)
  show ?thesis
  proof (cases "d < days_in_month y m")
    case True
    with fields show ?thesis by simp
  next
    case False
    with d have last: "d = days_in_month y m" by simp
    show ?thesis
    proof (cases "m < 12")
      case True
      with fields last m show ?thesis
        by (simp add: days_before_month_step)
    next
      case False
      with m have "m = 12" by simp
      with fields last show ?thesis
        using december_end [of y]
        by (simp add: days_before_year_step days_before_month_def DAYS_BEFORE_MONTH_def)
    qed
  qed
qed

lemma on_calendar_next_day:
  assumes "on_calendar dt"
  shows "on_calendar (next_day dt)"
proof (cases dt)
  case (fields y m d)
  with assms have m: "1 \<le> m" "m \<le> 12" and d: "1 \<le> d" "d \<le> days_in_month y m"
    by (simp_all add: on_calendar_def)
  have "1 \<le> days_in_month y' m'" if "1 \<le> m'" "m' \<le> 12" for y' m'
    using days_in_month_bounds [OF that, of y'] by simp
  with fields m d show ?thesis
    by (simp add: on_calendar_def)
qed

lemma add_days_props:
  "on_calendar dt \<Longrightarrow> on_calendar (add_days n dt) \<and> ymd2ord (add_days n dt) = ymd2ord dt + int n"
proof (induction n arbitrary: dt)
  case 0
  then show ?case by simp
next
  case (Suc n)
  from Suc.prems have "on_calendar (next_day dt)" by (rule on_calendar_next_day)
  from Suc.IH [OF this] ymd2ord_next_day [OF Suc.prems] show ?case by simp
qed

lemma days_before_year_mono:
  assumes "y1 \<le> y2"
  shows "days_before_year y1 \<le> days_before_year y2"
proof -
  have "days_before_year y1 \<le> days_before_year (y1 + int k)" for k
  proof (induction k)
    case 0
    show ?case by simp
  next
    case (Suc k)
    have "days_before_year (y1 + int k) \<le> days_before_year (y1 + int k + 1)"
      by (simp add: days_before_year_step)
    moreover have "y1 + int (Suc k) = y1 + int k + 1" by simp
    ultimately show ?case using Suc.IH by (simp only: order_trans)
  qed
  from this [of "nat (y2 - y1)"] assms show ?thesis by simp
qed

lemma days_before_month_mono:
  assumes "1 \<le> m1" "m1 \<le> m2" "m2 \<le> 12"
  shows "days_before_month y m1 \<le> days_before_month y m2"
proof -
  have "days_before_month y m1 \<le> days_before_month y (m1 + int k)" if "m1 + int k \<le> 12" for k
    using that
  proof (induction k)
    case 0
    show ?case by simp
  next
    case (Suc k)
    then have lt: "m1 + int k < 12" by simp
    with assms have "days_before_month y (m1 + int k + 1) = days_before_month y (m1 + int k) + days_in_month y (m1 + int k)"
      by (intro days_before_month_step) simp_all
    moreover have "0 \<le> days_in_month y (m1 + int k)"
      using days_in_month_bounds [of "m1 + int k" y] assms lt by simp
    moreover have "m1 + int (Suc k) = m1 + int k + 1" by simp
    moreover from Suc.IH lt have "days_before_month y m1 \<le> days_before_month y (m1 + int k)"
      by simp
    ultimately show ?case by (simp only:)
  qed
  from this [of "nat (m2 - m1)"] assms show ?thesis by simp
qed

lemma month_within_year:
  assumes "1 \<le> m" "m \<le> 12"
  shows "0 \<le> days_before_month y m \<and>
         days_before_month y m + days_in_month y m \<le> (if is_leap y then 366 else 365)"
proof
  have "days_before_month y 1 \<le> days_before_month y m"
    using assms by (intro days_before_month_mono) simp_all
  then show "0 \<le> days_before_month y m"
    by (simp add: days_before_month_def DAYS_BEFORE_MONTH_def)
next
  show "days_before_month y m + days_in_month y m \<le> (if is_leap y then 366 else 365)"
  proof (cases "m = 12")
    case True
    then show ?thesis using december_end [of y] by simp
  next
    case False
    with assms have lt: "m < 12" by simp
    with assms have "days_before_month y (m + 1) = days_before_month y m + days_in_month y m"
      by (intro days_before_month_step)
    moreover have "days_before_month y (m + 1) \<le> days_before_month y 12"
      using assms lt by (intro days_before_month_mono) simp_all
    moreover have "0 \<le> days_in_month y 12"
      by (simp add: days_in_month_def DAYS_IN_MONTH_def)
    ultimately show ?thesis using december_end [of y] by (simp split: if_splits)
  qed
qed

lemma ymd2ord_in_year:
  assumes "on_calendar (y, m, d)"
  shows "days_before_year y < ymd2ord (y, m, d) \<and> ymd2ord (y, m, d) \<le> days_before_year (y + 1)"
proof -
  from assms have m: "1 \<le> m" "m \<le> 12" and d: "1 \<le> d" "d \<le> days_in_month y m"
    by (simp_all add: on_calendar_def)
  from month_within_year [OF m, of y] d show ?thesis
    by (simp add: days_before_year_step split: if_splits)
qed

lemma ymd2ord_strict_mono:
  assumes "on_calendar a" "on_calendar b" "a < b"
  shows "ymd2ord a < ymd2ord b"
proof -
  obtain y1 m1 d1 where a: "a = (y1, m1, d1)" by (cases a)
  obtain y2 m2 d2 where b: "b = (y2, m2, d2)" by (cases b)
  from assms(3) a b consider "y1 < y2" | "y1 = y2" "m1 < m2" | "y1 = y2" "m1 = m2" "d1 < d2"
    by (auto simp: order.order_iff_strict)
  then show ?thesis
  proof cases
    case 1
    then have "days_before_year (y1 + 1) \<le> days_before_year y2"
      by (intro days_before_year_mono) simp
    with ymd2ord_in_year [of y1 m1 d1] ymd2ord_in_year [of y2 m2 d2] assms a b
    show ?thesis by simp
  next
    case 2
    from assms a b have m1: "1 \<le> m1" "m1 \<le> 12" and m2: "m2 \<le> 12"
      and d1: "d1 \<le> days_in_month y1 m1" and d2: "1 \<le> d2"
      by (simp_all add: on_calendar_def)
    from 2 m1 m2 have "days_before_month y1 (m1 + 1) = days_before_month y1 m1 + days_in_month y1 m1"
      by (intro days_before_month_step) simp_all
    moreover have "days_before_month y1 (m1 + 1) \<le> days_before_month y1 m2"
      using 2 m1 m2 by (intro days_before_month_mono) simp_all
    ultimately show ?thesis using 2 a b d1 d2 by simp
  next
    case 3
    with a b show ?thesis by simp
  qed
qed

lemma ymd2ord_less_imp_less:
  assumes "on_calendar a" "on_calendar b" "ymd2ord a < ymd2ord b"
  shows "a < b"
proof (rule ccontr)
  assume "\<not> a < b"
  then have "b < a \<or> b = a" by auto
  then show False
  proof
    assume "b < a"
    from ymd2ord_strict_mono [OF assms(2) assms(1) this] assms(3) show False by simp
  next
    assume "b = a"
    with assms(3) show False by simp
  qed
qed

lemma add_days_unique:
  assumes "on_calendar dt" "on_calendar r" "ymd2ord r = ymd2ord dt + int n"
  shows "r = add_days n dt"
proof (rule ccontr)
  assume ne: "r \<noteq> add_days n dt"
  from add_days_props [OF assms(1), of n]
  have c: "on_calendar (add_days n dt)" and o: "ymd2ord (add_days n dt) = ymd2ord r"
    using assms(3) by simp_all
  from ne have "r < add_days n dt \<or> add_days n dt < r" by auto
  then show False
  proof
    assume "r < add_days n dt"
    from ymd2ord_strict_mono [OF assms(2) c this] o show False by simp
  next
    assume "add_days n dt < r"
    from ymd2ord_strict_mono [OF c assms(2) this] o show False by simp
  qed
qed

lemma days_before_MINYEAR: "days_before_year MINYEAR = 0"
  by (simp add: MINYEAR_def days_before_year_def)

section \<open>Facts about \<open>datetime\<close> values\<close>

lemma valid_datetime_on_calendar:
  "valid_datetime dt \<Longrightarrow> on_calendar (date_of dt)"
  by (simp add: valid_datetime_def check_date_fields_def on_calendar_def date_of_def)

lemma thirteenth_in_month:
  assumes "1 \<le> m" "m \<le> 12"
  shows "13 \<le> days_in_month y m"
  using days_in_month_bounds [OF assms, of y] by simp

lemma datetime_new_valid:
  assumes "datetime_new y m d hh mm ss us = Inr r"
  shows "valid_datetime r"
  using assms by (auto simp: datetime_new_def valid_datetime_def split: if_splits)

lemma ymd2ord_mono:
  assumes "on_calendar a" "on_calendar b" "a \<le> b"
  shows "ymd2ord a \<le> ymd2ord b"
proof (cases "a = b")
  case True
  then show ?thesis by simp
next
  case False
  with assms(3) have "a < b" by simp
  from ymd2ord_strict_mono [OF assms(1,2) this] show ?thesis by simp
qed

lemma ordinal_le_imp_year_le:
  assumes "on_calendar (y1, m1, d1)" "on_calendar (y2, m2, d2)"
    and "ymd2ord (y1, m1, d1) \<le> ymd2ord (y2, m2, d2)"
  shows "y1 \<le> y2"
proof (rule ccontr)
  assume "\<not> y1 \<le> y2"
  then have "(y2, m2, d2) < (y1, m1, d1)" by simp
  from ymd2ord_strict_mono [OF assms(2) assms(1) this] assms(3) show False by simp
qed

lemma last_day_on_calendar: "on_calendar (MAXYEAR, 12, 31)"
  by (simp add: on_calendar_def days_in_month_def DAYS_IN_MONTH_def)

text \<open>
  \<open>dt + timedelta(days=n)\<close> returns exactly when the ordinal of the result is at most
  \<open>MAXORDINAL\<close>; the result is then a value of \<open>datetime\<close>.
\<close>

lemma add_timedelta_days_ok:
  assumes "valid_datetime dt" "ymd2ord (date_of dt) + int n \<le> MAXORDINAL"
  obtains r where "add_timedelta_days dt n = Inr r" "valid_datetime r"
    "ymd2ord (date_of r) = ymd2ord (date_of dt) + int n"
    "date_of r = add_days n (date_of dt)"
    "hour r = hour dt" "minute r = minute dt" "second r = second dt"
    "microsecond r = microsecond dt"
proof -
  obtain y m d where r: "add_days n (date_of dt) = (y, m, d)"
    by (cases "add_days n (date_of dt)")
  from assms(1) have cal: "on_calendar (year dt, month dt, day dt)"
    using valid_datetime_on_calendar [of dt] by (simp add: date_of_def)
  from assms(1) have ymin: "MINYEAR \<le> year dt"
    by (simp add: valid_datetime_def check_date_fields_def)
  from add_days_props [OF cal, of n] r
  have cal': "on_calendar (y, m, d)"
    and ord: "ymd2ord (y, m, d) = ymd2ord (year dt, month dt, day dt) + int n"
    by (simp_all add: date_of_def)
  from assms(2) have le: "ymd2ord (year dt, month dt, day dt) + int n \<le> MAXORDINAL"
    by (simp add: date_of_def)
  have "ymd2ord (year dt, month dt, day dt) \<le> ymd2ord (y, m, d)"
    unfolding ord by simp
  with cal cal' have lo: "year dt \<le> y"
    by (rule ordinal_le_imp_year_le)
  have hi: "y \<le> MAXYEAR"
    using cal' last_day_on_calendar
  proof (rule ordinal_le_imp_year_le)
    from ord le show "ymd2ord (y, m, d) \<le> ymd2ord (MAXYEAR, 12, 31)"
      by (simp only: MAXORDINAL_def)
  qed
  have "days_before_year MINYEAR \<le> days_before_year (year dt)"
    using ymin by (rule days_before_year_mono)
  with ymd2ord_in_year [OF cal]
  have pos: "0 < ymd2ord (year dt, month dt, day dt) + int n"
    by (simp add: days_before_MINYEAR)
  let ?r = "dt\<lparr>year := y, month := m, day := d\<rparr>"
  from r have r': "add_days n (year dt, month dt, day dt) = (y, m, d)"
    by (simp add: date_of_def)
  from pos le have "add_timedelta_days dt n = Inr ?r"
    by (simp add: add_timedelta_days_def r' date_of_def)
  moreover have "valid_datetime ?r"
    using assms(1) ymin lo hi cal'
    by (simp add: valid_datetime_def check_date_fields_def on_calendar_def)
  moreover have "ymd2ord (date_of ?r) = ymd2ord (date_of dt) + int n"
    using ord by (simp add: date_of_def)
  moreover have "date_of ?r = add_days n (date_of dt)"
    using r by (simp add: date_of_def)
  ultimately show thesis by (intro that [of ?r]) simp_all
qed

lemma add_timedelta_days_overflow:
  assumes "MAXORDINAL < ymd2ord (date_of dt) + int n"
  shows "add_timedelta_days dt n = Inl OverflowError"
  using assms by (simp add: add_timedelta_days_def Let_def)

section \<open>The billing period: lemmas\<close>

text \<open>
  The three branches of \<open>bill_start\<close>, and the one case in which \<open>replace\<close> raises: in
  the first twelve days of \<open>MINYEAR\<close> the previous month would lie in year 0.
\<close>

lemma bill_start_cases:
  assumes "valid_datetime today"
  shows "13 \<le> day today \<Longrightarrow> bill_start today = Inr (today\<lparr>day := 13\<rparr>)"
    and "day today < 13 \<Longrightarrow> month today \<noteq> 1 \<Longrightarrow>
           bill_start today = Inr (today\<lparr>month := month today - 1, day := 13\<rparr>)"
    and "day today < 13 \<Longrightarrow> month today = 1 \<Longrightarrow> MINYEAR < year today \<Longrightarrow>
           bill_start today = Inr (today\<lparr>year := year today - 1, month := 12, day := 13\<rparr>)"
    and "day today < 13 \<Longrightarrow> month today = 1 \<Longrightarrow> year today = MINYEAR \<Longrightarrow>
           bill_start today = Inl ValueError"
proof -
  from assms have y: "MINYEAR \<le> year today" "year today \<le> MAXYEAR"
    and m: "1 \<le> month today" "month today \<le> 12"
    and t: "check_time_fields (hour today) (minute today) (second today) (microsecond today)"
    by (simp_all add: valid_datetime_def check_date_fields_def)
  show "bill_start today = Inr (today\<lparr>day := 13\<rparr>)" if "13 \<le> day today"
    using that y m t thirteenth_in_month [OF m, of "year today"]
    by (simp add: bill_start_def replace_def datetime_new_def check_date_fields_def)
  show "bill_start today = Inr (today\<lparr>month := month today - 1, day := 13\<rparr>)"
    if "day today < 13" "month today \<noteq> 1"
    using that y m t thirteenth_in_month [of "month today - 1" "year today"]
    by (simp add: bill_start_def replace_def datetime_new_def check_date_fields_def)
  show "bill_start today = Inr (today\<lparr>year := year today - 1, month := 12, day := 13\<rparr>)"
    if "day today < 13" "month today = 1" "MINYEAR < year today"
    using that y m t thirteenth_in_month [of 12 "year today - 1"]
    by (simp add: bill_start_def replace_def datetime_new_def check_date_fields_def)
  show "bill_start today = Inl ValueError"
    if "day today < 13" "month today = 1" "year today = MINYEAR"
    using that
    by (simp add: bill_start_def replace_def datetime_new_def check_date_fields_def)
qed

text \<open>
  From 13 January of \<open>MINYEAR\<close> on, \<open>bill_start\<close> returns a 13th that is not after
  \<open>today\<close>, with the time of day of \<open>today\<close>.
\<close>

lemma bill_start_ok:
  assumes "valid_datetime today" "(MINYEAR, 1, 13) \<le> date_of today"
  obtains bs where "bill_start today = Inr bs" "valid_datetime bs" "day bs = 13"
    "hour bs = hour today" "minute bs = minute today" "second bs = second today"
    "microsecond bs = microsecond today"
    "date_of bs \<le> date_of today"
    "13 \<le> day today \<Longrightarrow> year bs = year today \<and> month bs = month today"
    "day today < 13 \<Longrightarrow> month today \<noteq> 1 \<Longrightarrow> year bs = year today \<and> month bs = month today - 1"
    "day today < 13 \<Longrightarrow> month today = 1 \<Longrightarrow> year bs = year today - 1 \<and> month bs = 12"
proof -
  from assms(1) have y: "MINYEAR \<le> year today" "year today \<le> MAXYEAR"
    and m: "1 \<le> month today" "month today \<le> 12"
    and t: "check_time_fields (hour today) (minute today) (second today) (microsecond today)"
    by (simp_all add: valid_datetime_def check_date_fields_def)
  consider (cur) "13 \<le> day today" | (prev) "day today < 13" "month today \<noteq> 1"
    | (jan) "day today < 13" "month today = 1"
    by linarith
  then show thesis
  proof cases
    case cur
    let ?bs = "today\<lparr>day := 13\<rparr>"
    have "bill_start today = Inr ?bs"
      using cur bill_start_cases(1) [OF assms(1)] by simp
    moreover have "valid_datetime ?bs"
      using y m t thirteenth_in_month [OF m, of "year today"]
      by (simp add: valid_datetime_def check_date_fields_def)
    moreover have "date_of ?bs \<le> date_of today"
      using cur by (simp add: date_of_def)
    ultimately show thesis using cur by (intro that [of ?bs]) simp_all
  next
    case prev
    let ?bs = "today\<lparr>month := month today - 1, day := 13\<rparr>"
    have "bill_start today = Inr ?bs"
      using prev bill_start_cases(2) [OF assms(1)] by simp
    moreover have "valid_datetime ?bs"
      using prev y m t thirteenth_in_month [of "month today - 1" "year today"]
      by (simp add: valid_datetime_def check_date_fields_def)
    moreover have "date_of ?bs \<le> date_of today"
      by (simp add: date_of_def)
    ultimately show thesis using prev by (intro that [of ?bs]) simp_all
  next
    case jan
    with assms(2) have later: "MINYEAR < year today"
      by (simp add: date_of_def)
    let ?bs = "today\<lparr>year := year today - 1, month := 12, day := 13\<rparr>"
    have "bill_start today = Inr ?bs"
      using jan later bill_start_cases(3) [OF assms(1)] by simp
    moreover have "valid_datetime ?bs"
      using jan y later t thirteenth_in_month [of 12 "year today - 1"]
      by (simp add: valid_datetime_def check_date_fields_def)
    moreover have "date_of ?bs \<le> date_of today"
      by (simp add: date_of_def)
    ultimately show thesis using jan by (intro that [of ?bs]) simp_all
  qed
qed

text \<open>
  \<open>bill_end\<close> returns the 12th of the next month unless the start lies in December of
  \<open>MAXYEAR\<close>, where the constructor is given the year after \<open>MAXYEAR\<close>.
\<close>

lemma bill_end_ok:
  assumes "valid_datetime bs" "year bs < MAXYEAR \<or> month bs < 12"
  shows "bill_end bs =
           Inr \<lparr>year = (if month bs = 12 then year bs + 1 else year bs),
                month = (if month bs = 12 then 1 else month bs + 1),
                day = 12, hour = 0, minute = 0, second = 0, microsecond = 0\<rparr>"
proof -
  from assms(1) have y: "MINYEAR \<le> year bs" "year bs \<le> MAXYEAR"
    and m: "1 \<le> month bs" "month bs \<le> 12"
    by (simp_all add: valid_datetime_def check_date_fields_def)
  show ?thesis
  proof (cases "month bs = 12")
    case True
    with assms(2) have "year bs < MAXYEAR" by simp
    moreover have "12 \<le> days_in_month (year bs + 1) 1"
      by (simp add: days_in_month_def DAYS_IN_MONTH_def)
    ultimately show ?thesis using True y
      by (simp add: bill_end_def datetime_new_def check_date_fields_def check_time_fields_def)
  next
    case False
    with m have lt: "month bs < 12" by simp
    with m have md: "month bs mod 12 = month bs" by simp
    have "12 \<le> days_in_month (year bs) (month bs + 1)"
      using days_in_month_bounds [of "month bs + 1" "year bs"] m lt by simp
    with False y m lt md show ?thesis
      by (simp add: bill_end_def datetime_new_def check_date_fields_def check_time_fields_def)
  qed
qed

lemma bill_end_December_of_MAXYEAR:
  assumes "year bs = MAXYEAR" "month bs = 12"
  shows "bill_end bs = Inl ValueError"
  using assms by (simp add: bill_end_def datetime_new_def check_date_fields_def)

lemma bill_end_valid:
  assumes "bill_end bs = Inr be"
  shows "valid_datetime be"
  using assms unfolding bill_end_def Let_def by (rule datetime_new_valid)

lemma bill_end_ordinal:
  assumes "1 \<le> m" "m \<le> 12"
  shows "ymd2ord (if m = 12 then y + 1 else y, if m = 12 then 1 else m + 1, 12) =
         ymd2ord (y, m, 13) + days_in_month y m - 1"
proof (cases "m = 12")
  case True
  then show ?thesis
    using december_end [of y]
    by (simp add: days_before_year_step days_before_month_def DAYS_BEFORE_MONTH_def)
next
  case False
  with assms have "m < 12" by simp
  with assms False show ?thesis
    by (simp add: days_before_month_step)
qed

text \<open>
  The last start whose due date exists is 13 October of \<open>MAXYEAR\<close>: 50 days later is
  2 December. From 13 November the sum passes the last day of \<open>MAXYEAR\<close>.
\<close>

lemma last_start_on_calendar: "on_calendar (MAXYEAR, 10, 13)"
  by (simp add: on_calendar_def days_in_month_def DAYS_IN_MONTH_def)

lemma last_start_plus_50: "ymd2ord (MAXYEAR, 10, 13) + 50 \<le> MAXORDINAL"
  by code_simp

lemma November_of_MAXYEAR_plus_50: "MAXORDINAL < ymd2ord (MAXYEAR, 11, 13) + 50"
  by code_simp

lemma billing_period_ok:
  assumes "valid_datetime today" "(MINYEAR, 1, 13) \<le> date_of today"
    and "date_of today < (MAXYEAR, 11, 13)"
  obtains bs be due where
    "bill_start today = Inr bs" "bill_end bs = Inr be" "due_date bs = Inr due"
    "billing_period today = Inr (bs, be, due)"
    "valid_datetime bs" "day bs = 13" "valid_datetime be" "valid_datetime due"
    "be = \<lparr>year = (if month bs = 12 then year bs + 1 else year bs),
            month = (if month bs = 12 then 1 else month bs + 1),
            day = 12, hour = 0, minute = 0, second = 0, microsecond = 0\<rparr>"
    "ymd2ord (date_of due) = ymd2ord (date_of bs) + 50"
    "date_of due = add_days 50 (date_of bs)"
    "hour due = hour bs" "minute due = minute bs" "second due = second bs"
    "microsecond due = microsecond bs"
proof -
  from bill_start_ok [OF assms(1,2)] obtain bs where
    bs: "bill_start today = Inr bs" "valid_datetime bs" "day bs = 13"
      "date_of bs \<le> date_of today"
    by blast
  from bs(4) assms(3) have "date_of bs < (MAXYEAR, 11, 13)" by simp
  with bs(3) have last: "date_of bs \<le> (MAXYEAR, 10, 13)"
    and dec: "year bs < MAXYEAR \<or> month bs < 12"
    by (auto simp: date_of_def)
  define be where "be = \<lparr>year = (if month bs = 12 then year bs + 1 else year bs),
            month = (if month bs = 12 then 1 else month bs + 1),
            day = 12, hour = 0, minute = 0, second = 0, microsecond = 0\<rparr>"
  have be: "bill_end bs = Inr be"
    unfolding be_def using bs(2) dec by (rule bill_end_ok)
  from be have vbe: "valid_datetime be" by (rule bill_end_valid)
  have "ymd2ord (date_of bs) \<le> ymd2ord (MAXYEAR, 10, 13)"
    using valid_datetime_on_calendar [OF bs(2)] last_start_on_calendar last
    by (rule ymd2ord_mono)
  with last_start_plus_50 have "ymd2ord (date_of bs) + int 50 \<le> MAXORDINAL"
    by simp
  from add_timedelta_days_ok [OF bs(2) this] obtain due where
    due: "add_timedelta_days bs 50 = Inr due" "valid_datetime due"
      "ymd2ord (date_of due) = ymd2ord (date_of bs) + int 50"
      "date_of due = add_days 50 (date_of bs)"
      "hour due = hour bs" "minute due = minute bs" "second due = second bs"
      "microsecond due = microsecond bs"
    by auto
  have "billing_period today = Inr (bs, be, due)"
    using bs(1) be due(1) by (simp add: billing_period_def due_date_def)
  with bs be due vbe show thesis
    by (intro that [of bs be due]) (simp_all add: due_date_def be_def)
qed

lemma period_order:
  assumes "valid_datetime bs" "day bs = 13" "valid_datetime be" "valid_datetime due"
    and "be = \<lparr>year = (if month bs = 12 then year bs + 1 else year bs),
            month = (if month bs = 12 then 1 else month bs + 1),
            day = 12, hour = 0, minute = 0, second = 0, microsecond = 0\<rparr>"
    and "ymd2ord (date_of due) = ymd2ord (date_of bs) + 50"
  shows "date_of bs < date_of be \<and> date_of be < date_of due"
proof
  show "date_of bs < date_of be"
    using assms(5) by (simp add: date_of_def)
next
  from assms(1) have m: "1 \<le> month bs" "month bs \<le> 12"
    by (simp_all add: valid_datetime_def check_date_fields_def)
  have "ymd2ord (date_of be) = ymd2ord (year bs, month bs, 13) + days_in_month (year bs) (month bs) - 1"
    using bill_end_ordinal [OF m, of "year bs"] assms(5) by (simp add: date_of_def)
  also have "\<dots> = ymd2ord (date_of bs) + days_in_month (year bs) (month bs) - 1"
    using assms(2) by (simp add: date_of_def)
  finally have "ymd2ord (date_of be) < ymd2ord (date_of due)"
    using days_in_month_bounds [OF m, of "year bs"] assms(6) by simp
  with valid_datetime_on_calendar [OF assms(3)] valid_datetime_on_calendar [OF assms(4)]
  show "date_of be < date_of due"
    by (rule ymd2ord_less_imp_less)
qed

text \<open>
  Outside these bounds the library raises, so the bounds are exactly the readings of
  the clock for which \<open>export_pdf\<close> computes a period: from 13 January of \<open>MINYEAR\<close>
  (year 1) to 12 November of \<open>MAXYEAR\<close> (year 9999). Before, there is no previous month;
  after, the due date, and from 13 December on also the end of the period, would lie
  after the last day of \<open>MAXYEAR\<close>.
\<close>

lemma billing_period_raises:
  assumes "valid_datetime today"
    and "date_of today < (MINYEAR, 1, 13) \<or> (MAXYEAR, 11, 13) \<le> date_of today"
  shows "\<exists>e. billing_period today = Inl e"
proof -
  from assms(1) have y: "MINYEAR \<le> year today" "year today \<le> MAXYEAR"
    and m: "1 \<le> month today" "month today \<le> 12"
    and d: "1 \<le> day today"
    and t: "check_time_fields (hour today) (minute today) (second today) (microsecond today)"
    by (simp_all add: valid_datetime_def check_date_fields_def)
  from assms(2) show ?thesis
  proof
    assume "date_of today < (MINYEAR, 1, 13)"
    with y m have "day today < 13" "month today = 1" "year today = MINYEAR"
      by (auto simp: date_of_def)
    then have "bill_start today = Inl ValueError"
      by (rule bill_start_cases(4) [OF assms(1)])
    then show ?thesis by (simp add: billing_period_def)
  next
    assume late: "(MAXYEAR, 11, 13) \<le> date_of today"
    with y have my: "year today = MAXYEAR" by (auto simp: date_of_def)
    from late my have "11 < month today \<or> 11 \<le> month today \<and> 13 \<le> day today"
      by (simp add: date_of_def)
    with m have "month today = 11 \<and> 13 \<le> day today \<or>
        month today = 12 \<and> day today < 13 \<or> month today = 12 \<and> 13 \<le> day today"
      by arith
    then consider (nov) "month today = 11" "13 \<le> day today"
      | (dec1) "month today = 12" "day today < 13"
      | (dec2) "month today = 12" "13 \<le> day today"
      by blast
    then show ?thesis
    proof cases
      case nov
      let ?bs = "today\<lparr>day := 13\<rparr>"
      have bs: "bill_start today = Inr ?bs"
        using nov bill_start_cases(1) [OF assms(1)] by simp
      have "date_of ?bs = (MAXYEAR, 11, 13)"
        using nov my by (simp add: date_of_def)
      with November_of_MAXYEAR_plus_50 have "due_date ?bs = Inl OverflowError"
        unfolding due_date_def by (intro add_timedelta_days_overflow) simp
      with bs show ?thesis
        by (simp add: billing_period_def split: sum.splits)
    next
      case dec1
      let ?bs = "today\<lparr>month := month today - 1, day := 13\<rparr>"
      have bs: "bill_start today = Inr ?bs"
        using dec1 bill_start_cases(2) [OF assms(1)] by simp
      have "date_of ?bs = (MAXYEAR, 11, 13)"
        using dec1 my by (simp add: date_of_def)
      with November_of_MAXYEAR_plus_50 have "due_date ?bs = Inl OverflowError"
        unfolding due_date_def by (intro add_timedelta_days_overflow) simp
      with bs show ?thesis
        by (simp add: billing_period_def split: sum.splits)
    next
      case dec2
      let ?bs = "today\<lparr>day := 13\<rparr>"
      have bs: "bill_start today = Inr ?bs"
        using dec2 bill_start_cases(1) [OF assms(1)] by simp
      have "bill_end ?bs = Inl ValueError"
        using dec2 my by (intro bill_end_December_of_MAXYEAR) simp_all
      with bs show ?thesis
        by (simp add: billing_period_def)
    qed
  qed
qed

lemma billing_period_at_the_ends:
  "billing_period \<lparr>year = 1, month = 1, day = 12, hour = 9, minute = 30, second = 0,
                    microsecond = 0\<rparr> = Inl ValueError"
  "billing_period \<lparr>year = 9999, month = 11, day = 13, hour = 9, minute = 30, second = 0,
                    microsecond = 0\<rparr> = Inl OverflowError"
  "billing_period \<lparr>year = 9999, month = 12, day = 13, hour = 9, minute = 30, second = 0,
                    microsecond = 0\<rparr> = Inl ValueError"
  by code_simp+

text \<open>
  The start and the end of the period exist a month longer than the due date, up to
  12 December of \<open>MAXYEAR\<close>.
\<close>

lemma period_bounds_ok:
  assumes "valid_datetime today" "(MINYEAR, 1, 13) \<le> date_of today"
    and "date_of today < (MAXYEAR, 12, 13)"
  obtains bs be where
    "bill_start today = Inr bs" "bill_end bs = Inr be"
    "be = \<lparr>year = (if month bs = 12 then year bs + 1 else year bs),
            month = (if month bs = 12 then 1 else month bs + 1),
            day = 12, hour = 0, minute = 0, second = 0, microsecond = 0\<rparr>"
    "date_of bs \<le> date_of today"
    "13 \<le> day today \<Longrightarrow> year bs = year today \<and> month bs = month today"
    "day today < 13 \<Longrightarrow> month today \<noteq> 1 \<Longrightarrow> year bs = year today \<and> month bs = month today - 1"
    "day today < 13 \<Longrightarrow> month today = 1 \<Longrightarrow> year bs = year today - 1 \<and> month bs = 12"
proof -
  from bill_start_ok [OF assms(1,2)] obtain bs where
    bs: "bill_start today = Inr bs" "valid_datetime bs" "day bs = 13"
      "date_of bs \<le> date_of today"
      "13 \<le> day today \<Longrightarrow> year bs = year today \<and> month bs = month today"
      "day today < 13 \<Longrightarrow> month today \<noteq> 1 \<Longrightarrow> year bs = year today \<and> month bs = month today - 1"
      "day today < 13 \<Longrightarrow> month today = 1 \<Longrightarrow> year bs = year today - 1 \<and> month bs = 12"
    by blast
  from bs(4) assms(3) have "date_of bs < (MAXYEAR, 12, 13)" by simp
  with bs(3) have "year bs < MAXYEAR \<or> month bs < 12"
    by (auto simp: date_of_def)
  with bs(2) have "bill_end bs =
      Inr \<lparr>year = (if month bs = 12 then year bs + 1 else year bs),
            month = (if month bs = 12 then 1 else month bs + 1),
            day = 12, hour = 0, minute = 0, second = 0, microsecond = 0\<rparr>"
    by (rule bill_end_ok)
  with bs show thesis
    by (intro that [of bs]) simp_all
qed

section \<open>The billing period: claims\<close>

text \<open>
  Claim C1. For a reading \<open>today\<close> of the clock (any value of \<open>datetime\<close>): when
  \<open>today.day \<ge> 13\<close> the period starts on the 13th of the month and year of \<open>today\<close>;
  otherwise it starts on the 13th of the previous month, which for January is December
  of the previous year (a year that exists, that is, \<open>today\<close> is not in \<open>MINYEAR\<close>).
  The start keeps the time of day of \<open>today\<close>, as \<open>replace\<close> does.
\<close>

theorem bill_start_is_13th:
  assumes "valid_datetime today"
  shows "(13 \<le> day today \<longrightarrow> bill_start today = Inr (today\<lparr>day := 13\<rparr>)) \<and>
         (day today < 13 \<and> month today \<noteq> 1 \<longrightarrow>
            bill_start today = Inr (today\<lparr>month := month today - 1, day := 13\<rparr>)) \<and>
         (day today < 13 \<and> month today = 1 \<and> MINYEAR < year today \<longrightarrow>
            bill_start today = Inr (today\<lparr>year := year today - 1, month := 12, day := 13\<rparr>))"
  using bill_start_cases [OF assms] by simp

text \<open>
  C1 on 20 December, 10 March and 5 January 2024, one date for each branch.
\<close>

theorem bill_start_is_13th_witness:
  "valid_datetime \<lparr>year = 2024, month = 12, day = 20, hour = 9, minute = 30, second = 0,
                    microsecond = 0\<rparr> \<and>
   bill_start \<lparr>year = 2024, month = 12, day = 20, hour = 9, minute = 30, second = 0,
                microsecond = 0\<rparr> =
     Inr \<lparr>year = 2024, month = 12, day = 13, hour = 9, minute = 30, second = 0,
           microsecond = 0\<rparr> \<and>
   valid_datetime \<lparr>year = 2024, month = 3, day = 10, hour = 9, minute = 30, second = 0,
                    microsecond = 0\<rparr> \<and>
   bill_start \<lparr>year = 2024, month = 3, day = 10, hour = 9, minute = 30, second = 0,
                microsecond = 0\<rparr> =
     Inr \<lparr>year = 2024, month = 2, day = 13, hour = 9, minute = 30, second = 0,
           microsecond = 0\<rparr> \<and>
   valid_datetime \<lparr>year = 2024, month = 1, day = 5, hour = 9, minute = 30, second = 0,
                    microsecond = 0\<rparr> \<and>
   MINYEAR < 2024 \<and>
   bill_start \<lparr>year = 2024, month = 1, day = 5, hour = 9, minute = 30, second = 0,
                microsecond = 0\<rparr> =
     Inr \<lparr>year = 2023, month = 12, day = 13, hour = 9, minute = 30, second = 0,
           microsecond = 0\<rparr>"
proof -
  let ?a = "\<lparr>year = 2024, month = 12, day = 20, hour = 9, minute = 30, second = 0,
             microsecond = 0\<rparr>"
  let ?b = "\<lparr>year = 2024, month = 3, day = 10, hour = 9, minute = 30, second = 0,
             microsecond = 0\<rparr>"
  let ?c = "\<lparr>year = 2024, month = 1, day = 5, hour = 9, minute = 30, second = 0,
             microsecond = 0\<rparr>"
  have a: "valid_datetime ?a" by code_simp
  have b: "valid_datetime ?b" by code_simp
  have c: "valid_datetime ?c" by code_simp
  have y: "MINYEAR < 2024" by (simp add: MINYEAR_def)
  from a b c y bill_start_is_13th [OF a] bill_start_is_13th [OF b] bill_start_is_13th [OF c]
  show ?thesis by simp
qed

text \<open>
  Claim C2. For a reading \<open>today\<close> of the clock from 13 January of \<open>MINYEAR\<close> to
  12 December of \<open>MAXYEAR\<close> (the dates for which Python has both ends of the period),
  the start and the end of the period are computed, and the end is the 12th, at
  midnight, of the month after the month of the start; after December that is January
  of the next year.
\<close>

theorem bill_end_is_12th_of_next_month:
  assumes "valid_datetime today" "(MINYEAR, 1, 13) \<le> date_of today"
    and "date_of today < (MAXYEAR, 12, 13)"
  shows "\<exists>bs be. bill_start today = Inr bs \<and> bill_end bs = Inr be \<and>
           be = \<lparr>year = (if month bs = 12 then year bs + 1 else year bs),
                  month = (if month bs = 12 then 1 else month bs + 1),
                  day = 12, hour = 0, minute = 0, second = 0, microsecond = 0\<rparr>"
  using period_bounds_ok [OF assms] by metis

text \<open>
  C2 on 5 January 2024: the period starts in December 2023 and ends on 12 January 2024.
\<close>

theorem bill_end_is_12th_of_next_month_witness:
  "valid_datetime \<lparr>year = 2024, month = 1, day = 5, hour = 9, minute = 30, second = 0,
                    microsecond = 0\<rparr> \<and>
   (MINYEAR, 1, 13) \<le> date_of \<lparr>year = 2024, month = 1, day = 5, hour = 9, minute = 30,
                                 second = 0, microsecond = 0\<rparr> \<and>
   date_of \<lparr>year = 2024, month = 1, day = 5, hour = 9, minute = 30,
             second = 0, microsecond = 0\<rparr> < (MAXYEAR, 12, 13) \<and>
   (\<exists>bs be.
      bill_start \<lparr>year = 2024, month = 1, day = 5, hour = 9, minute = 30, second = 0,
                   microsecond = 0\<rparr> = Inr bs \<and>
      bill_end bs = Inr be \<and>
      be = \<lparr>year = (if month bs = 12 then year bs + 1 else year bs),
             month = (if month bs = 12 then 1 else month bs + 1),
             day = 12, hour = 0, minute = 0, second = 0, microsecond = 0\<rparr>) \<and>
   bill_start \<lparr>year = 2024, month = 1, day = 5, hour = 9, minute = 30, second = 0,
                microsecond = 0\<rparr> =
     Inr \<lparr>year = 2023, month = 12, day = 13, hour = 9, minute = 30, second = 0,
           microsecond = 0\<rparr> \<and>
   bill_end \<lparr>year = 2023, month = 12, day = 13, hour = 9, minute = 30, second = 0,
              microsecond = 0\<rparr> =
     Inr \<lparr>year = 2024, month = 1, day = 12, hour = 0, minute = 0, second = 0,
           microsecond = 0\<rparr>"
proof -
  let ?t = "\<lparr>year = 2024, month = 1, day = 5, hour = 9, minute = 30, second = 0,
             microsecond = 0\<rparr>"
  have v: "valid_datetime ?t" by code_simp
  have lo: "(MINYEAR, 1, 13) \<le> date_of ?t" by code_simp
  have hi: "date_of ?t < (MAXYEAR, 12, 13)" by code_simp
  have s: "bill_start ?t =
     Inr \<lparr>year = 2023, month = 12, day = 13, hour = 9, minute = 30, second = 0,
           microsecond = 0\<rparr>"
    by code_simp
  have e: "bill_end \<lparr>year = 2023, month = 12, day = 13, hour = 9, minute = 30, second = 0,
              microsecond = 0\<rparr> =
     Inr \<lparr>year = 2024, month = 1, day = 12, hour = 0, minute = 0, second = 0,
           microsecond = 0\<rparr>"
    by code_simp
  note ex = bill_end_is_12th_of_next_month [OF v lo hi]
  from v lo hi ex s e show ?thesis
    by (intro conjI)
qed

text \<open>
  Claim C3. For a reading \<open>today\<close> of the clock from 13 January of \<open>MINYEAR\<close> to
  12 November of \<open>MAXYEAR\<close> (the dates for which Python has the due date), the period
  is computed and the due date is the period start moved on by 50 days of the calendar:
  it is a date of the calendar, its ordinal is the ordinal of the start plus 50, and its
  time of day is that of the start. The start is not after the end and the end is
  before the due date, both as dates and as datetimes.
\<close>

theorem due_date_is_start_plus_50_days:
  assumes "valid_datetime today" "(MINYEAR, 1, 13) \<le> date_of today"
    and "date_of today < (MAXYEAR, 11, 13)"
  shows "\<exists>bs be due. billing_period today = Inr (bs, be, due) \<and>
           valid_datetime due \<and>
           date_of due = add_days 50 (date_of bs) \<and>
           ymd2ord (date_of due) = ymd2ord (date_of bs) + 50 \<and>
           hour due = hour bs \<and> minute due = minute bs \<and> second due = second bs \<and>
           microsecond due = microsecond bs \<and>
           date_of bs \<le> date_of be \<and> date_of be < date_of due \<and>
           dt_key bs \<le> dt_key be \<and> dt_key be < dt_key due"
proof -
  from billing_period_ok [OF assms] obtain bs be due where
    p: "billing_period today = Inr (bs, be, due)"
      "valid_datetime bs" "day bs = 13" "valid_datetime be" "valid_datetime due"
      "be = \<lparr>year = (if month bs = 12 then year bs + 1 else year bs),
            month = (if month bs = 12 then 1 else month bs + 1),
            day = 12, hour = 0, minute = 0, second = 0, microsecond = 0\<rparr>"
      "ymd2ord (date_of due) = ymd2ord (date_of bs) + 50"
      "hour due = hour bs" "minute due = minute bs" "second due = second bs"
      "microsecond due = microsecond bs"
      "date_of due = add_days 50 (date_of bs)"
    by metis
  from period_order [OF p(2-7)]
  have o: "date_of bs < date_of be" "date_of be < date_of due" by simp_all
  then have "dt_key bs \<le> dt_key be" "dt_key be < dt_key due"
    by (simp_all add: dt_key_def)
  with p o show ?thesis by (intro exI [of _ bs] exI [of _ be] exI [of _ due]) simp
qed

text \<open>
  C3 on 10 March 2024: start 13 February, end 12 March, due 3 April 2024.
\<close>

theorem due_date_is_start_plus_50_days_witness:
  "valid_datetime \<lparr>year = 2024, month = 3, day = 10, hour = 9, minute = 30, second = 0,
                    microsecond = 0\<rparr> \<and>
   (MINYEAR, 1, 13) \<le> date_of \<lparr>year = 2024, month = 3, day = 10, hour = 9, minute = 30,
                                 second = 0, microsecond = 0\<rparr> \<and>
   date_of \<lparr>year = 2024, month = 3, day = 10, hour = 9, minute = 30,
             second = 0, microsecond = 0\<rparr> < (MAXYEAR, 11, 13) \<and>
   (\<exists>bs be due.
      billing_period \<lparr>year = 2024, month = 3, day = 10, hour = 9, minute = 30, second = 0,
                       microsecond = 0\<rparr> = Inr (bs, be, due) \<and>
      valid_datetime due \<and>
      date_of due = add_days 50 (date_of bs) \<and>
      ymd2ord (date_of due) = ymd2ord (date_of bs) + 50 \<and>
      hour due = hour bs \<and> minute due = minute bs \<and> second due = second bs \<and>
      microsecond due = microsecond bs \<and>
      date_of bs \<le> date_of be \<and> date_of be < date_of due \<and>
      dt_key bs \<le> dt_key be \<and> dt_key be < dt_key due) \<and>
   billing_period \<lparr>year = 2024, month = 3, day = 10, hour = 9, minute = 30, second = 0,
                    microsecond = 0\<rparr> =
     Inr (\<lparr>year = 2024, month = 2, day = 13, hour = 9, minute = 30, second = 0,
            microsecond = 0\<rparr>,
          \<lparr>year = 2024, month = 3, day = 12, hour = 0, minute = 0, second = 0,
            microsecond = 0\<rparr>,
          \<lparr>year = 2024, month = 4, day = 3, hour = 9, minute = 30, second = 0,
            microsecond = 0\<rparr>) \<and>
   ymd2ord (2024, 4, 3) = ymd2ord (2024, 2, 13) + 50"
proof -
  let ?t = "\<lparr>year = 2024, month = 3, day = 10, hour = 9, minute = 30, second = 0,
             microsecond = 0\<rparr>"
  have v: "valid_datetime ?t" by code_simp
  have lo: "(MINYEAR, 1, 13) \<le> date_of ?t" by code_simp
  have hi: "date_of ?t < (MAXYEAR, 11, 13)" by code_simp
  have ev: "billing_period ?t =
     Inr (\<lparr>year = 2024, month = 2, day = 13, hour = 9, minute = 30, second = 0,
            microsecond = 0\<rparr>,
          \<lparr>year = 2024, month = 3, day = 12, hour = 0, minute = 0, second = 0,
            microsecond = 0\<rparr>,
          \<lparr>year = 2024, month = 4, day = 3, hour = 9, minute = 30, second = 0,
            microsecond = 0\<rparr>)"
    by code_simp
  have od: "ymd2ord (2024, 4, 3) = ymd2ord (2024, 2, 13) + 50"
    by code_simp
  note ex = due_date_is_start_plus_50_days [OF v lo hi]
  from v lo hi ex ev od show ?thesis
    by (intro conjI)
qed

text \<open>
  Claim C10. For a reading \<open>today\<close> of the clock from 13 January of \<open>MINYEAR\<close> to
  12 December of \<open>MAXYEAR\<close>, the date of \<open>today\<close> lies in the billing period, compared
  as calendar dates (\<open>.date()\<close>, as the header of the statement prints the period): it
  is not before the date of the start and not after the date of the end.
\<close>

theorem today_within_period:
  assumes "valid_datetime today" "(MINYEAR, 1, 13) \<le> date_of today"
    and "date_of today < (MAXYEAR, 12, 13)"
  shows "\<exists>bs be. bill_start today = Inr bs \<and> bill_end bs = Inr be \<and>
           date_of bs \<le> date_of today \<and> date_of today \<le> date_of be"
proof -
  from period_bounds_ok [OF assms] obtain bs be where
    p: "bill_start today = Inr bs" "bill_end bs = Inr be"
      "be = \<lparr>year = (if month bs = 12 then year bs + 1 else year bs),
            month = (if month bs = 12 then 1 else month bs + 1),
            day = 12, hour = 0, minute = 0, second = 0, microsecond = 0\<rparr>"
      "date_of bs \<le> date_of today"
      "13 \<le> day today \<Longrightarrow> year bs = year today \<and> month bs = month today"
      "day today < 13 \<Longrightarrow> month today \<noteq> 1 \<Longrightarrow> year bs = year today \<and> month bs = month today - 1"
      "day today < 13 \<Longrightarrow> month today = 1 \<Longrightarrow> year bs = year today - 1 \<and> month bs = 12"
    by blast
  from assms(1) have m: "1 \<le> month today" "month today \<le> 12"
    by (simp_all add: valid_datetime_def check_date_fields_def)
  have "date_of today \<le> date_of be"
  proof (cases "13 \<le> day today")
    case True
    with p(5) p(3) show ?thesis by (simp add: date_of_def)
  next
    case False
    then have d: "day today < 13" by simp
    show ?thesis
    proof (cases "month today = 1")
      case True
      with p(7) d p(3) show ?thesis by (simp add: date_of_def)
    next
      case False
      with p(6) d p(3) m show ?thesis by (simp add: date_of_def)
    qed
  qed
  with p(1,2,4) show ?thesis by blast
qed

text \<open>
  C10 on 12 January 2025 at 18:00, the last day of the period that began on
  13 December 2024.
\<close>

theorem today_within_period_witness:
  "valid_datetime \<lparr>year = 2025, month = 1, day = 12, hour = 18, minute = 0, second = 0,
                    microsecond = 500000\<rparr> \<and>
   (MINYEAR, 1, 13) \<le> date_of \<lparr>year = 2025, month = 1, day = 12, hour = 18, minute = 0,
                                 second = 0, microsecond = 500000\<rparr> \<and>
   date_of \<lparr>year = 2025, month = 1, day = 12, hour = 18, minute = 0,
             second = 0, microsecond = 500000\<rparr> < (MAXYEAR, 12, 13) \<and>
   (\<exists>bs be.
      bill_start \<lparr>year = 2025, month = 1, day = 12, hour = 18, minute = 0, second = 0,
                   microsecond = 500000\<rparr> = Inr bs \<and>
      bill_end bs = Inr be \<and>
      date_of bs \<le> date_of \<lparr>year = 2025, month = 1, day = 12, hour = 18, minute = 0,
                              second = 0, microsecond = 500000\<rparr> \<and>
      date_of \<lparr>year = 2025, month = 1, day = 12, hour = 18, minute = 0,
                second = 0, microsecond = 500000\<rparr> \<le> date_of be) \<and>
   bill_start \<lparr>year = 2025, month = 1, day = 12, hour = 18, minute = 0, second = 0,
                microsecond = 500000\<rparr> =
     Inr \<lparr>year = 2024, month = 12, day = 13, hour = 18, minute = 0, second = 0,
           microsecond = 500000\<rparr> \<and>
   bill_end \<lparr>year = 2024, month = 12, day = 13, hour = 18, minute = 0, second = 0,
              microsecond = 500000\<rparr> =
     Inr \<lparr>year = 2025, month = 1, day = 12, hour = 0, minute = 0, second = 0,
           microsecond = 0\<rparr>"
proof -
  let ?t = "\<lparr>year = 2025, month = 1, day = 12, hour = 18, minute = 0, second = 0,
             microsecond = 500000\<rparr>"
  have v: "valid_datetime ?t" by code_simp
  have lo: "(MINYEAR, 1, 13) \<le> date_of ?t" by code_simp
  have hi: "date_of ?t < (MAXYEAR, 12, 13)" by code_simp
  have s: "bill_start ?t =
     Inr \<lparr>year = 2024, month = 12, day = 13, hour = 18, minute = 0, second = 0,
           microsecond = 500000\<rparr>"
    by code_simp
  have e: "bill_end \<lparr>year = 2024, month = 12, day = 13, hour = 18, minute = 0, second = 0,
              microsecond = 500000\<rparr> =
     Inr \<lparr>year = 2025, month = 1, day = 12, hour = 0, minute = 0, second = 0,
           microsecond = 0\<rparr>"
    by code_simp
  note ex = today_within_period [OF v lo hi]
  from v lo hi ex s e show ?thesis
    by (intro conjI)
qed

text \<open>
  Claim C5, as stated: on 20 December 2024 the period is 13 December 2024 to
  12 January 2025 and the due date is 31 January 2025. The start and the end are
  computed so, but the due date that is computed is 1 February 2025: 18 days lead to
  31 December and 32 more to 1 February. The same sum gives 1 February 2024 for the
  period that starts on 13 December 2023.
\<close>

theorem due_date_2024_12_20_counterexample:
  "billing_period \<lparr>year = 2024, month = 12, day = 20, hour = 0, minute = 0,
                    second = 0, microsecond = 0\<rparr> =
     Inr (\<lparr>year = 2024, month = 12, day = 13, hour = 0, minute = 0, second = 0,
            microsecond = 0\<rparr>,
          \<lparr>year = 2025, month = 1, day = 12, hour = 0, minute = 0, second = 0,
            microsecond = 0\<rparr>,
          \<lparr>year = 2025, month = 2, day = 1, hour = 0, minute = 0, second = 0,
            microsecond = 0\<rparr>) \<and>
   date_of \<lparr>year = 2025, month = 2, day = 1, hour = 0, minute = 0, second = 0,
            microsecond = 0\<rparr> \<noteq> (2025, 1, 31)"
  by code_simp

lemma add_days_50_from_2024_12_13: "add_days 50 (2024, 12, 13) = (2025, 2, 1)"
  by code_simp

lemma ymd2ord_2024_12_13: "ymd2ord (2024, 12, 13) = 739233"
  by code_simp

lemma MAXORDINAL_value: "MAXORDINAL = 3652059"
  by code_simp

text \<open>
  Claim C5, amended: on 20 December 2024, at any time of day, the period is 13 December
  2024 to 12 January 2025 and the due date is 1 February 2025.
\<close>

theorem period_for_2024_12_20:
  assumes "check_time_fields hh mm ss us"
  shows "billing_period \<lparr>year = 2024, month = 12, day = 20, hour = hh, minute = mm,
                          second = ss, microsecond = us\<rparr> =
           Inr (\<lparr>year = 2024, month = 12, day = 13, hour = hh, minute = mm, second = ss,
                  microsecond = us\<rparr>,
                \<lparr>year = 2025, month = 1, day = 12, hour = 0, minute = 0, second = 0,
                  microsecond = 0\<rparr>,
                \<lparr>year = 2025, month = 2, day = 1, hour = hh, minute = mm, second = ss,
                  microsecond = us\<rparr>)"
proof -
  let ?today = "\<lparr>year = 2024, month = 12, day = 20, hour = hh, minute = mm,
                          second = ss, microsecond = us\<rparr>"
  let ?bs = "\<lparr>year = 2024, month = 12, day = 13, hour = hh, minute = mm, second = ss,
                  microsecond = us\<rparr>"
  have cdf: "check_date_fields 2024 12 13" "check_date_fields 2025 1 12"
    by (simp_all add: check_date_fields_def MINYEAR_def MAXYEAR_def days_in_month_def
        DAYS_IN_MONTH_def)
  have ctf: "check_time_fields 0 0 0 0"
    by (simp add: check_time_fields_def)
  have bs: "bill_start ?today = Inr ?bs"
    using assms cdf by (simp add: bill_start_def replace_def datetime_new_def)
  have be: "bill_end ?bs = Inr \<lparr>year = 2025, month = 1, day = 12, hour = 0, minute = 0,
      second = 0, microsecond = 0\<rparr>"
    using cdf ctf by (simp add: bill_end_def datetime_new_def)
  have due: "due_date ?bs = Inr \<lparr>year = 2025, month = 2, day = 1, hour = hh, minute = mm,
      second = ss, microsecond = us\<rparr>"
    by (simp add: due_date_def add_timedelta_days_def date_of_def add_days_50_from_2024_12_13
        ymd2ord_2024_12_13 MAXORDINAL_value del: ymd2ord.simps)
  show ?thesis
    by (simp add: billing_period_def bs be due)
qed

theorem period_for_2024_12_20_witness:
  "check_time_fields 9 30 0 0 \<and>
   billing_period \<lparr>year = 2024, month = 12, day = 20, hour = 9, minute = 30,
                    second = 0, microsecond = 0\<rparr> =
     Inr (\<lparr>year = 2024, month = 12, day = 13, hour = 9, minute = 30, second = 0,
            microsecond = 0\<rparr>,
          \<lparr>year = 2025, month = 1, day = 12, hour = 0, minute = 0, second = 0,
            microsecond = 0\<rparr>,
          \<lparr>year = 2025, month = 2, day = 1, hour = 9, minute = 30, second = 0,
            microsecond = 0\<rparr>)"
proof -
  have h: "check_time_fields 9 30 0 0" by (simp add: check_time_fields_def)
  from h period_for_2024_12_20 [OF h] show ?thesis by simp
qed

section \<open>Sums of whole amounts\<close>

text \<open>
  A sum of floats is exact as long as it needs no more than 53 bits. So the sum that
  Python computes for whole amounts that are not negative is their sum, in both versions
  of \<open>sum\<close>, when it is below \<open>2^53\<close>: the compensation of the newer version stays zero.
\<close>

lemma bit_length_le:
  assumes "0 \<le> n" and "n < 2 ^ k"
  shows "bit_length n \<le> int k"
  using assms
proof (induction k arbitrary: n)
  case 0
  then have "n = 0" by simp
  then show ?case by (simp add: bit_length.simps)
next
  case (Suc k)
  show ?case
  proof (cases "n \<le> 0")
    case True
    then show ?thesis by (simp add: bit_length.simps)
  next
    case False
    have "n div 2 < 2 ^ k" using Suc.prems by simp
    moreover have "0 \<le> n div 2" using Suc.prems by simp
    ultimately have "bit_length (n div 2) \<le> int k" by (rule Suc.IH [rotated])
    moreover have "bit_length n = 1 + bit_length (n div 2)"
      using False by (subst bit_length.simps) simp
    ultimately show ?thesis by simp
  qed
qed

lemma fadd_whole:
  assumes "\<bar>a + b\<bar> < 2 ^ 53"
  shows "fadd (Finite a 0) (Finite b 0) = Finite (a + b) 0"
proof -
  have "bit_length \<bar>a + b\<bar> \<le> int 53"
    using assms by (intro bit_length_le) simp_all
  then have b: "bit_length \<bar>a + b\<bar> \<le> 53" by simp
  then have k: "max 0 (bit_length \<bar>a + b\<bar> - 53) = 0" by simp
  show ?thesis
    using b by (simp add: round_double_def k round_half_even_def)
qed

lemma foldl_fadd_whole:
  assumes "0 \<le> a" and "\<forall>n \<in> set ns. 0 \<le> n" and "a + sum_list ns < 2 ^ 53"
  shows "foldl fadd (Finite a 0) (map (\<lambda>n. Finite n 0) ns) = Finite (a + sum_list ns) 0"
  using assms
proof (induction ns arbitrary: a)
  case Nil
  then show ?case by simp
next
  case (Cons n ns)
  have n: "0 \<le> n" and ns: "\<forall>n \<in> set ns. 0 \<le> n" using Cons.prems(2) by simp_all
  have "0 \<le> sum_list ns" using ns by (simp add: sum_list_nonneg)
  with Cons.prems n have "\<bar>a + n\<bar> < 2 ^ 53" by simp
  then have step: "fadd (Finite a 0) (Finite n 0) = Finite (a + n) 0" by (rule fadd_whole)
  have "foldl fadd (Finite (a + n) 0) (map (\<lambda>n. Finite n 0) ns) =
          Finite (a + n + sum_list ns) 0"
    using Cons.prems n ns by (intro Cons.IH) (simp_all add: add.assoc)
  then show ?case by (simp add: step add.assoc del: fadd.simps)
qed

lemma sum_neumaier_whole:
  assumes "0 \<le> a" and "\<forall>n \<in> set ns. 0 \<le> n" and "a + sum_list ns < 2 ^ 53"
  shows "sum_neumaier (Finite a 0) (Finite 0 0) (map (\<lambda>n. Finite n 0) ns) =
           Finite (a + sum_list ns) 0"
  using assms
proof (induction ns arbitrary: a)
  case Nil
  then show ?case by simp
next
  case (Cons n ns)
  have n: "0 \<le> n" and ns: "\<forall>n \<in> set ns. 0 \<le> n" using Cons.prems(2) by simp_all
  have "0 \<le> sum_list ns" using ns by (simp add: sum_list_nonneg)
  with Cons.prems n have small: "a + n < 2 ^ 53" by simp
  have t: "fadd (Finite a 0) (Finite n 0) = Finite (a + n) 0"
    using small Cons.prems(1) n by (intro fadd_whole) simp
  have d1: "fadd (Finite a 0) (Finite (- (a + n)) 0) = Finite (- n) 0"
    using fadd_whole [of a "- (a + n)"] small Cons.prems(1) n by simp
  have d2: "fadd (Finite n 0) (Finite (- (a + n)) 0) = Finite (- a) 0"
    using fadd_whole [of n "- (a + n)"] small Cons.prems(1) n by simp
  have z1: "fadd (Finite (- n) 0) (Finite n 0) = Finite 0 0"
    using fadd_whole [of "- n" n] by simp
  have z2: "fadd (Finite (- a) 0) (Finite a 0) = Finite 0 0"
    using fadd_whole [of "- a" a] by simp
  have z: "fadd (Finite 0 0) (Finite 0 0) = Finite 0 0"
    using fadd_whole [of 0 0] by simp
  have c: "(if fabs_ge (Finite a 0) (Finite n 0)
            then fadd (Finite 0 0)
                   (fadd (fsub (Finite a 0) (Finite (a + n) 0)) (Finite n 0))
            else fadd (Finite 0 0)
                   (fadd (fsub (Finite n 0) (Finite (a + n) 0)) (Finite a 0))) =
           Finite 0 0"
    by (simp only: fsub_def fneg.simps d1 d2 z1 z2 z if_cancel)
  have "sum_neumaier (Finite (a + n) 0) (Finite 0 0) (map (\<lambda>n. Finite n 0) ns) =
          Finite (a + n + sum_list ns) 0"
    using Cons.prems n ns by (intro Cons.IH) (simp_all add: add.assoc)
  then show ?case
    by (simp only: list.map sum_neumaier.simps c t sum_list.Cons add.assoc)
qed

lemma py_sum_whole:
  assumes "\<forall>n \<in> set ns. 0 \<le> n" and "sum_list ns < 2 ^ 53"
  shows "py_sum py (map (\<lambda>n. Finite n 0) ns) = Finite (sum_list ns) 0"
proof (cases ns)
  case Nil
  then show ?thesis by simp
next
  case (Cons n rest)
  have n: "0 \<le> n" and rest: "\<forall>n \<in> set rest. 0 \<le> n" using assms(1) Cons by simp_all
  have "0 \<le> sum_list rest" using rest by (simp add: sum_list_nonneg)
  with assms(2) Cons n have "\<bar>0 + n\<bar> < 2 ^ 53" by simp
  then have "fadd (Finite 0 0) (Finite n 0) = Finite (0 + n) 0" by (rule fadd_whole)
  then have start: "fadd (Finite 0 0) (Finite n 0) = Finite n 0" by simp
  have total: "n + sum_list rest < 2 ^ 53" using assms(2) Cons by simp
  show ?thesis
  proof (cases py)
    case Before_3_12
    show ?thesis
      unfolding Before_3_12 Cons
      by (simp add: start foldl_fadd_whole [OF n rest total] del: fadd.simps)
  next
    case From_3_12
    show ?thesis
      unfolding From_3_12 Cons
      by (simp add: start sum_neumaier_whole [OF n rest total] del: fadd.simps)
  qed
qed

lemma exact_sum_whole:
  "exact_sum (map (\<lambda>n. Finite n 0) ns) = Some (of_int (sum_list ns))"
  by (induction ns) simp_all

section \<open>The statement: lemmas\<close>

text \<open>
  When the billing period is computed, \<open>export_pdf\<close> returns the statement of the rows
  that the query selects and leaves the tables as they were; when the library raises in
  the computation of the period, so does \<open>export_pdf\<close>, before the query.
\<close>

lemma export_pdf_Inr:
  assumes "billing_period today = Inr (bs, be, due)"
  shows "export_pdf py s usr today =
           Inr (\<lparr>user_name = fst (snd usr), user_email = fst (snd (snd usr)),
                 period_start = date_of bs, period_end = date_of be,
                 period_due = date_of due,
                 line_items =
                   map (\<lambda>t. (amount t, txn_type t, description t, timestamp t))
                     (filter (\<lambda>t. user_id t = fst usr \<and>
                                  sql_between (timestamp t) (isoformat bs) (isoformat be))
                        (transactions s)),
                 description_cells =
                   map (\<lambda>t. format_description (description t))
                     (filter (\<lambda>t. user_id t = fst usr \<and>
                                  sql_between (timestamp t) (isoformat bs) (isoformat be))
                        (transactions s)),
                 total_due =
                   total_due_of py
                     (map (\<lambda>t. (amount t, txn_type t, description t, timestamp t))
                        (filter (\<lambda>t. user_id t = fst usr \<and>
                                     sql_between (timestamp t) (isoformat bs) (isoformat be))
                           (transactions s)))\<rparr>,
                s\<lparr>cursor := []\<rparr>)"
  using assms
  by (cases usr) (simp add: export_pdf_def fetchall_def execute_select_def comp_def)

lemma export_pdf_Inl:
  assumes "billing_period today = Inl e"
  shows "export_pdf py s usr today = Inl e"
  using assms by (simp add: export_pdf_def)

lemma export_pdf_result:
  assumes "export_pdf py s usr today = Inr (st, s')"
  shows "description_cells st = map (\<lambda>t. format_description (fst (snd (snd t)))) (line_items st)"
    and "total_due st = total_due_of py (line_items st)"
    and "s' = s\<lparr>cursor := []\<rparr>"
  using assms
  by (auto simp: export_pdf_def fetchall_def execute_select_def
      split: sum.splits prod.splits)

lemma total_due_of_without_credits:
  "total_due_of py (filter (\<lambda>t. fst (snd t) \<noteq> lit ''credit'') rows) = total_due_of py rows"
proof -
  have "filter (\<lambda>t. fst (snd t) = lit ''debit'')
          (filter (\<lambda>t. fst (snd t) \<noteq> lit ''credit'') rows) =
        filter (\<lambda>t. fst (snd t) = lit ''debit'') rows"
    unfolding filter_filter by (rule filter_cong) (auto simp: lit_def)
  then show ?thesis by (simp only: total_due_of_def)
qed

text \<open>The statements of the two users of the example ledger on 20 December 2024.\<close>

lemma export_pdf_asha:
  "export_pdf py ledger asha dec_20 = Inr (asha_statement, ledger\<lparr>cursor := []\<rparr>)"
proof (cases py)
  case Before_3_12
  show ?thesis unfolding Before_3_12 by code_simp
next
  case From_3_12
  show ?thesis unfolding From_3_12 by code_simp
qed

lemma export_pdf_ravi:
  "export_pdf py ledger ravi dec_20 = Inr (ravi_statement, ledger\<lparr>cursor := []\<rparr>)"
proof (cases py)
  case Before_3_12
  show ?thesis unfolding Before_3_12 by code_simp
next
  case From_3_12
  show ?thesis unfolding From_3_12 by code_simp
qed

lemma billing_period_dec_20:
  "billing_period dec_20 =
     Inr (\<lparr>year = 2024, month = 12, day = 13, hour = 9, minute = 30, second = 0,
            microsecond = 0\<rparr>,
          \<lparr>year = 2025, month = 1, day = 12, hour = 0, minute = 0, second = 0,
            microsecond = 0\<rparr>,
          \<lparr>year = 2025, month = 2, day = 1, hour = 9, minute = 30, second = 0,
            microsecond = 0\<rparr>)"
  by code_simp

section \<open>The statement: claims\<close>

text \<open>
  Claim C4 says that the line items are the transactions of the user from the start of
  the first day of the period to the last instant of its last day. \<open>export_pdf\<close> selects
  less. The lower bound of its query is \<open>bill_start.isoformat()\<close>, and \<open>bill_start\<close> keeps
  the time of day at which the statement is made; the upper bound is
  \<open>bill_end.isoformat()\<close>, midnight at the beginning of the 12th. Here a user has a
  debit of 50 made on 13 December 2024 at 09:00 and a debit of 20 made on 12 January
  2025 at 10:00, both stored by \<open>add_transaction\<close>. The statement made on 12 January 2025
  at 18:00 prints the period 2024-12-13 to 2025-01-12 and holds neither of the two: no
  line item, total 0.
\<close>

theorem export_pdf_misses_first_and_last_day:
  "map_sum id fst
     (export_pdf py
        (add_transaction
           (add_transaction
              \<lparr>users = [(1, lit ''Asha'', lit ''asha@example.com'', lit ''pw1'')],
                transactions = [], last_txn_id = 0, cursor = []\<rparr>
              1 (Finite 50 0) (lit ''debit'') (lit ''Groceries'')
              \<lparr>year = 2024, month = 12, day = 13, hour = 9, minute = 0, second = 0,
                microsecond = 0\<rparr>)
           1 (Finite 20 0) (lit ''debit'') (lit ''Tea'')
           \<lparr>year = 2025, month = 1, day = 12, hour = 10, minute = 0, second = 0,
             microsecond = 123\<rparr>)
        (1, lit ''Asha'', lit ''asha@example.com'', lit ''pw1'')
        \<lparr>year = 2025, month = 1, day = 12, hour = 18, minute = 0, second = 0,
          microsecond = 500000\<rparr>) =
   Inr \<lparr>user_name = lit ''Asha'', user_email = lit ''asha@example.com'',
         period_start = (2024, 12, 13), period_end = (2025, 1, 12),
         period_due = (2025, 2, 1),
         line_items = [], description_cells = [], total_due = Finite 0 0\<rparr>"
proof (cases py)
  case Before_3_12
  show ?thesis unfolding Before_3_12 by code_simp
next
  case From_3_12
  show ?thesis unfolding From_3_12 by code_simp
qed

text \<open>
  Claim C7 says that two statements made for the same user and the same day \<open>today\<close>
  over the same store are the same. \<open>export_pdf\<close> reads the clock, not the calendar: the
  lower bound of its query carries the time of day of the call (the defect shown for
  claim C4). Here a user has one debit of 50, stored by \<open>add_transaction\<close> on 13 December
  2024 at 09:00, and nothing is written afterwards. The statement made on 20 December
  2024 at 08:00 lists the debit and has the total 50; the statement made on the same day
  at 18:00, for the same user over the same store, has the same header, no line item and
  the total 0.
\<close>

theorem export_pdf_differs_within_one_day:
  "date_of \<lparr>year = 2024, month = 12, day = 20, hour = 8, minute = 0, second = 0,
             microsecond = 0\<rparr> =
   date_of \<lparr>year = 2024, month = 12, day = 20, hour = 18, minute = 0, second = 0,
             microsecond = 0\<rparr> \<and>
   map_sum id fst
     (export_pdf py
        (add_transaction
              \<lparr>users = [(1, lit ''Asha'', lit ''asha@example.com'', lit ''pw1'')],
                transactions = [], last_txn_id = 0, cursor = []\<rparr>
              1 (Finite 50 0) (lit ''debit'') (lit ''Groceries'')
              \<lparr>year = 2024, month = 12, day = 13, hour = 9, minute = 0, second = 0,
                microsecond = 0\<rparr>)
           (1, lit ''Asha'', lit ''asha@example.com'', lit ''pw1'')
        \<lparr>year = 2024, month = 12, day = 20, hour = 8, minute = 0, second = 0,
          microsecond = 0\<rparr>) =
   Inr \<lparr>user_name = lit ''Asha'', user_email = lit ''asha@example.com'',
         period_start = (2024, 12, 13), period_end = (2025, 1, 12),
         period_due = (2025, 2, 1),
         line_items = [(Finite 50 0, lit ''debit'', lit ''Groceries'', lit ''2024-12-13T09:00:00'')],
         description_cells = [lit ''Groceries''],
         total_due = Finite 50 0\<rparr> \<and>
   map_sum id fst
     (export_pdf py
        (add_transaction
              \<lparr>users = [(1, lit ''Asha'', lit ''asha@example.com'', lit ''pw1'')],
                transactions = [], last_txn_id = 0, cursor = []\<rparr>
              1 (Finite 50 0) (lit ''debit'') (lit ''Groceries'')
              \<lparr>year = 2024, month = 12, day = 13, hour = 9, minute = 0, second = 0,
                microsecond = 0\<rparr>)
           (1, lit ''Asha'', lit ''asha@example.com'', lit ''pw1'')
        \<lparr>year = 2024, month = 12, day = 20, hour = 18, minute = 0, second = 0,
          microsecond = 0\<rparr>) =
   Inr \<lparr>user_name = lit ''Asha'', user_email = lit ''asha@example.com'',
         period_start = (2024, 12, 13), period_end = (2025, 1, 12),
         period_due = (2025, 2, 1),
         line_items = [], description_cells = [], total_due = Finite 0 0\<rparr>"
proof (cases py)
  case Before_3_12
  show ?thesis unfolding Before_3_12 by code_simp
next
  case From_3_12
  show ?thesis unfolding From_3_12 by code_simp
qed

text \<open>
  Claim C6, as stated: the total is the sum of the amounts of the line items of type
  \<open>debit\<close>. The amounts are floats and \<open>sum\<close> adds them as floats, so the total is their
  sum rounded to a float. Here a user has a debit of 0.1 and a debit of 0.2, both in the
  period and both listed. Their sum is \<open>10808639105689191 / 2^55\<close>; the total is the float
  \<open>10808639105689192 / 2^55\<close>, which Python prints as \<open>0.30000000000000004\<close>, with the
  \<open>sum\<close> of either version.
\<close>

theorem total_due_of_tenth_and_fifth_counterexample:
  "map_sum id
     (\<lambda>r. (total_due (fst r),
           float_value (total_due (fst r)),
           exact_sum (map fst (filter (\<lambda>t. fst (snd t) = lit ''debit'') (line_items (fst r))))))
     (export_pdf Before_3_12
        (add_transaction
           (add_transaction
              \<lparr>users = [(1, lit ''Asha'', lit ''asha@example.com'', lit ''pw1'')],
                transactions = [], last_txn_id = 0, cursor = []\<rparr>
              1 (Finite 3602879701896397 (- 55)) (lit ''debit'') (lit ''Tea'')
              \<lparr>year = 2024, month = 12, day = 15, hour = 10, minute = 0, second = 0,
                microsecond = 0\<rparr>)
           1 (Finite 3602879701896397 (- 54)) (lit ''debit'') (lit ''Milk'')
           \<lparr>year = 2024, month = 12, day = 16, hour = 11, minute = 0, second = 0,
             microsecond = 0\<rparr>)
        (1, lit ''Asha'', lit ''asha@example.com'', lit ''pw1'')
        \<lparr>year = 2024, month = 12, day = 20, hour = 9, minute = 30, second = 0,
          microsecond = 0\<rparr>) =
   Inr (Finite 5404319552844596 (- 54),
        Some (10808639105689192 / 2 ^ 55),
        Some (10808639105689191 / 2 ^ 55)) \<and>
   map_sum id
     (\<lambda>r. (total_due (fst r),
           float_value (total_due (fst r)),
           exact_sum (map fst (filter (\<lambda>t. fst (snd t) = lit ''debit'') (line_items (fst r))))))
     (export_pdf From_3_12
        (add_transaction
           (add_transaction
              \<lparr>users = [(1, lit ''Asha'', lit ''asha@example.com'', lit ''pw1'')],
                transactions = [], last_txn_id = 0, cursor = []\<rparr>
              1 (Finite 3602879701896397 (- 55)) (lit ''debit'') (lit ''Tea'')
              \<lparr>year = 2024, month = 12, day = 15, hour = 10, minute = 0, second = 0,
                microsecond = 0\<rparr>)
           1 (Finite 3602879701896397 (- 54)) (lit ''debit'') (lit ''Milk'')
           \<lparr>year = 2024, month = 12, day = 16, hour = 11, minute = 0, second = 0,
             microsecond = 0\<rparr>)
        (1, lit ''Asha'', lit ''asha@example.com'', lit ''pw1'')
        \<lparr>year = 2024, month = 12, day = 20, hour = 9, minute = 30, second = 0,
          microsecond = 0\<rparr>) =
   Inr (Finite 5404319552844596 (- 54),
        Some (10808639105689192 / 2 ^ 55),
        Some (10808639105689191 / 2 ^ 55)) \<and>
   (10808639105689192 / 2 ^ 55 :: real) \<noteq> 10808639105689191 / 2 ^ 55"
  by code_simp

text \<open>
  Claim C6, amended. Whenever the billing period is computed, for any store and any
  user, \<open>export_pdf\<close> returns a statement, and
  \<^item> its total is what Python's \<open>sum\<close> returns for the amounts of its line items of type
    \<open>debit\<close>, in their order: a sum of floats;
  \<^item> when these amounts are whole numbers \<open>ns\<close>, none negative, with a sum below \<open>2^53\<close>,
    the total is that sum exactly;
  \<^item> the total is the same as for the line items without those of type \<open>credit\<close>, and
    every transaction of type \<open>credit\<close> that the query selects is among the line items;
  \<^item> when the query selects no transaction of the user, the statement has no line item
    and the total 0.
  The errors that the PDF writer may raise are outside the model.
\<close>

theorem total_due_is_float_sum_of_debits:
  assumes "billing_period today = Inr (bs, be, due)"
  shows "\<exists>st s'.
           export_pdf py s usr today = Inr (st, s') \<and>
           total_due st =
             py_sum py (map fst (filter (\<lambda>t. fst (snd t) = lit ''debit'') (line_items st))) \<and>
           ((\<forall>n \<in> set ns. 0 \<le> n) \<and> sum_list ns < 2 ^ 53 \<and>
            map fst (filter (\<lambda>t. fst (snd t) = lit ''debit'') (line_items st)) =
              map (\<lambda>n. Finite n 0) ns \<longrightarrow>
            total_due st = Finite (sum_list ns) 0 \<and>
            float_value (total_due st) =
              exact_sum (map fst (filter (\<lambda>t. fst (snd t) = lit ''debit'') (line_items st)))) \<and>
           total_due st =
             total_due_of py (filter (\<lambda>t. fst (snd t) \<noteq> lit ''credit'') (line_items st)) \<and>
           (\<forall>t \<in> set (transactions s).
              user_id t = fst usr \<and> sql_between (timestamp t) (isoformat bs) (isoformat be) \<and>
              txn_type t = lit ''credit'' \<longrightarrow>
              (amount t, txn_type t, description t, timestamp t) \<in> set (line_items st)) \<and>
           ((\<forall>t \<in> set (transactions s).
               \<not> (user_id t = fst usr \<and>
                  sql_between (timestamp t) (isoformat bs) (isoformat be))) \<longrightarrow>
            line_items st = [] \<and> total_due st = Finite 0 0)"
proof -
  note p = assms
  define sel where "sel = filter (\<lambda>t. user_id t = fst usr \<and>
      sql_between (timestamp t) (isoformat bs) (isoformat be)) (transactions s)"
  define st where "st = fst (projr (export_pdf py s usr today))"
  define debits where
    "debits = map fst (filter (\<lambda>t. fst (snd t) = lit ''debit'') (line_items st))"
  have e: "export_pdf py s usr today = Inr (st, s\<lparr>cursor := []\<rparr>)"
    unfolding st_def by (simp add: export_pdf_Inr [OF p])
  have li: "line_items st = map (\<lambda>t. (amount t, txn_type t, description t, timestamp t)) sel"
    unfolding st_def sel_def by (simp add: export_pdf_Inr [OF p])
  have td: "total_due st = total_due_of py (line_items st)"
    using e by (rule export_pdf_result(2))
  have 1: "total_due st = py_sum py debits"
    using td by (simp add: total_due_of_def debits_def)
  have 2: "(\<forall>n \<in> set ns. 0 \<le> n) \<and> sum_list ns < 2 ^ 53 \<and>
      debits = map (\<lambda>n. Finite n 0) ns \<longrightarrow>
      total_due st = Finite (sum_list ns) 0 \<and> float_value (total_due st) = exact_sum debits"
  proof (intro impI, elim conjE)
    assume nn: "\<forall>n \<in> set ns. 0 \<le> n" and small: "sum_list ns < 2 ^ 53"
      and d: "debits = map (\<lambda>n. Finite n 0) ns"
    have t: "total_due st = Finite (sum_list ns) 0"
      unfolding 1 d using nn small by (rule py_sum_whole)
    have "float_value (total_due st) = exact_sum debits"
      unfolding t d exact_sum_whole by simp
    with t show "total_due st = Finite (sum_list ns) 0 \<and>
        float_value (total_due st) = exact_sum debits" by simp
  qed
  have 3: "total_due st =
      total_due_of py (filter (\<lambda>t. fst (snd t) \<noteq> lit ''credit'') (line_items st))"
    using td by (simp add: total_due_of_without_credits)
  have 4: "\<forall>t \<in> set (transactions s).
      user_id t = fst usr \<and> sql_between (timestamp t) (isoformat bs) (isoformat be) \<and>
      txn_type t = lit ''credit'' \<longrightarrow>
      (amount t, txn_type t, description t, timestamp t) \<in> set (line_items st)"
    unfolding li sel_def by auto
  have 5: "(\<forall>t \<in> set (transactions s).
       \<not> (user_id t = fst usr \<and> sql_between (timestamp t) (isoformat bs) (isoformat be))) \<longrightarrow>
     line_items st = [] \<and> total_due st = Finite 0 0"
  proof
    assume "\<forall>t \<in> set (transactions s).
       \<not> (user_id t = fst usr \<and> sql_between (timestamp t) (isoformat bs) (isoformat be))"
    then have "sel = []" unfolding sel_def by (simp add: filter_empty_conv)
    with li td show "line_items st = [] \<and> total_due st = Finite 0 0"
      by (simp add: total_due_of_def)
  qed
  from e 1 2 3 4 5 show ?thesis unfolding debits_def by blast
qed

text \<open>
  C6 on the example ledger. Asha has a credit of 100 and a debit of 50 in the period and
  a debit of 999 before it: two line items, total 50, the sum of the one whole amount
  50. Ravi has no transaction in the period: no line item, total 0, and a statement all
  the same.
\<close>

theorem total_due_is_float_sum_of_debits_witness:
  "billing_period dec_20 =
     Inr (\<lparr>year = 2024, month = 12, day = 13, hour = 9, minute = 30, second = 0,
            microsecond = 0\<rparr>,
          \<lparr>year = 2025, month = 1, day = 12, hour = 0, minute = 0, second = 0,
            microsecond = 0\<rparr>,
          \<lparr>year = 2025, month = 2, day = 1, hour = 9, minute = 30, second = 0,
            microsecond = 0\<rparr>) \<and>
   (\<exists>st s'.
      export_pdf From_3_12 ledger asha dec_20 = Inr (st, s') \<and>
      total_due st =
        py_sum From_3_12 (map fst (filter (\<lambda>t. fst (snd t) = lit ''debit'') (line_items st))) \<and>
      ((\<forall>n \<in> set [50 :: int]. 0 \<le> n) \<and> sum_list [50 :: int] < 2 ^ 53 \<and>
       map fst (filter (\<lambda>t. fst (snd t) = lit ''debit'') (line_items st)) =
         map (\<lambda>n. Finite n 0) [50 :: int] \<longrightarrow>
       total_due st = Finite (sum_list [50 :: int]) 0 \<and>
       float_value (total_due st) =
         exact_sum (map fst (filter (\<lambda>t. fst (snd t) = lit ''debit'') (line_items st)))) \<and>
      total_due st =
        total_due_of From_3_12 (filter (\<lambda>t. fst (snd t) \<noteq> lit ''credit'') (line_items st)) \<and>
      (\<forall>t \<in> set (transactions ledger).
         user_id t = fst asha \<and>
         sql_between (timestamp t)
           (isoformat \<lparr>year = 2024, month = 12, day = 13, hour = 9, minute = 30,
                        second = 0, microsecond = 0\<rparr>)
           (isoformat \<lparr>year = 2025, month = 1, day = 12, hour = 0, minute = 0,
                        second = 0, microsecond = 0\<rparr>) \<and>
         txn_type t = lit ''credit'' \<longrightarrow>
         (amount t, txn_type t, description t, timestamp t) \<in> set (line_items st)) \<and>
      ((\<forall>t \<in> set (transactions ledger).
          \<not> (user_id t = fst asha \<and>
             sql_between (timestamp t)
               (isoformat \<lparr>year = 2024, month = 12, day = 13, hour = 9, minute = 30,
                            second = 0, microsecond = 0\<rparr>)
               (isoformat \<lparr>year = 2025, month = 1, day = 12, hour = 0, minute = 0,
                            second = 0, microsecond = 0\<rparr>))) \<longrightarrow>
       line_items st = [] \<and> total_due st = Finite 0 0)) \<and>
   export_pdf From_3_12 ledger asha dec_20 = Inr (asha_statement, ledger\<lparr>cursor := []\<rparr>) \<and>
   line_items asha_statement =
     [(Finite 100 0, lit ''credit'', lit ''Refund'', lit ''2024-12-15T10:00:00.000001''),
      (Finite 50 0, lit ''debit'', lit ''Annual maintenance contract for the lift'',
       lit ''2024-12-16T11:00:00.000002'')] \<and>
   map fst (filter (\<lambda>t. fst (snd t) = lit ''debit'') (line_items asha_statement)) =
     map (\<lambda>n. Finite n 0) [50 :: int] \<and>
   total_due asha_statement = Finite 50 0 \<and>
   export_pdf From_3_12 ledger ravi dec_20 = Inr (ravi_statement, ledger\<lparr>cursor := []\<rparr>) \<and>
   line_items ravi_statement = [] \<and>
   total_due ravi_statement = Finite 0 0"
proof -
  note ex = total_due_is_float_sum_of_debits
    [OF billing_period_dec_20, where py = From_3_12 and s = ledger and usr = asha
       and ns = "[50]"]
  note ea = export_pdf_asha [of From_3_12]
  note er = export_pdf_ravi [of From_3_12]
  have a: "line_items asha_statement =
     [(Finite 100 0, lit ''credit'', lit ''Refund'', lit ''2024-12-15T10:00:00.000001''),
      (Finite 50 0, lit ''debit'', lit ''Annual maintenance contract for the lift'',
       lit ''2024-12-16T11:00:00.000002'')]"
    by (simp add: asha_statement_def)
  have d: "map fst (filter (\<lambda>t. fst (snd t) = lit ''debit'') (line_items asha_statement)) =
     map (\<lambda>n. Finite n 0) [50 :: int]"
    by code_simp
  have t: "total_due asha_statement = Finite 50 0"
    by (simp add: asha_statement_def)
  have r: "line_items ravi_statement = []" "total_due ravi_statement = Finite 0 0"
    by (simp_all add: ravi_statement_def)
  from billing_period_dec_20 ex ea a d t er r show ?thesis
    by (intro conjI)
qed

text \<open>
  Claim C8. In a statement that \<open>export_pdf\<close> returns there is one description cell for
  each line item; it is the description itself when that has at most 33 characters, and
  otherwise its first 30 characters followed by three dots.
\<close>

theorem description_cells_truncated:
  assumes "export_pdf py s usr today = Inr (st, s')"
  shows "length (description_cells st) = length (line_items st) \<and>
         (\<forall>i < length (line_items st).
            (length (fst (snd (snd (line_items st ! i)))) \<le> 33 \<longrightarrow>
               description_cells st ! i = fst (snd (snd (line_items st ! i)))) \<and>
            (33 < length (fst (snd (snd (line_items st ! i)))) \<longrightarrow>
               description_cells st ! i =
                 take 30 (fst (snd (snd (line_items st ! i)))) @ lit ''...''))"
  using export_pdf_result(1) [OF assms]
  by (simp add: format_description_def)

text \<open>
  C8 on Asha's statement: the description of 6 characters is printed as it is, the one
  of 40 characters is cut after 30.
\<close>

theorem description_cells_truncated_witness:
  "export_pdf From_3_12 ledger asha dec_20 = Inr (asha_statement, ledger\<lparr>cursor := []\<rparr>) \<and>
   length (description_cells asha_statement) = length (line_items asha_statement) \<and>
   length (lit ''Refund'') \<le> 33 \<and>
   description_cells asha_statement ! 0 = lit ''Refund'' \<and>
   33 < length (lit ''Annual maintenance contract for the lift'') \<and>
   description_cells asha_statement ! 1 =
     take 30 (lit ''Annual maintenance contract for the lift'') @ lit ''...''"
proof -
  note e = export_pdf_asha [of From_3_12]
  note t = description_cells_truncated [OF e]
  have li: "line_items asha_statement =
     [(Finite 100 0, lit ''credit'', lit ''Refund'', lit ''2024-12-15T10:00:00.000001''),
      (Finite 50 0, lit ''debit'', lit ''Annual maintenance contract for the lift'',
       lit ''2024-12-16T11:00:00.000002'')]"
    by (simp add: asha_statement_def)
  from t have len: "length (description_cells asha_statement) = length (line_items asha_statement)"
    by blast
  from t have cell:
    "(length (fst (snd (snd (line_items asha_statement ! i)))) \<le> 33 \<longrightarrow>
        description_cells asha_statement ! i = fst (snd (snd (line_items asha_statement ! i)))) \<and>
     (33 < length (fst (snd (snd (line_items asha_statement ! i)))) \<longrightarrow>
        description_cells asha_statement ! i =
          take 30 (fst (snd (snd (line_items asha_statement ! i)))) @ lit ''...'')"
    if "i < length (line_items asha_statement)" for i
    using that by blast
  have short: "length (lit ''Refund'') \<le> 33"
    by (simp add: lit_def)
  have long: "33 < length (lit ''Annual maintenance contract for the lift'')"
    by (simp add: lit_def)
  have c0: "description_cells asha_statement ! 0 = lit ''Refund''"
    using cell [of 0] short by (simp add: li)
  have c1: "description_cells asha_statement ! 1 =
     take 30 (lit ''Annual maintenance contract for the lift'') @ lit ''...''"
    using cell [of 1] long by (simp add: li)
  from e len short c0 long c1 show ?thesis
    by (intro conjI)
qed

section \<open>Deleting a transaction\<close>

text \<open>
  Claim C9. \<open>delete_transaction\<close> with a user and a transaction id keeps, in their order,
  exactly the transactions that belong to another user or have another id. So a
  transaction is removed only if it has that id and belongs to that user, every
  transaction of another user and every transaction with another id stays, nothing is
  added, and the table of users is as it was.
\<close>

theorem delete_transaction_frame:
  shows "transactions (delete_transaction s uid tid) =
           filter (\<lambda>t. user_id t \<noteq> uid \<or> txn_id t \<noteq> tid) (transactions s) \<and>
         (\<forall>t \<in> set (transactions s).
            t \<notin> set (transactions (delete_transaction s uid tid)) \<longrightarrow>
            user_id t = uid \<and> txn_id t = tid) \<and>
         (\<forall>t \<in> set (transactions s).
            user_id t \<noteq> uid \<or> txn_id t \<noteq> tid \<longrightarrow>
            t \<in> set (transactions (delete_transaction s uid tid))) \<and>
         set (transactions (delete_transaction s uid tid)) \<subseteq> set (transactions s) \<and>
         users (delete_transaction s uid tid) = users s"
proof -
  have "transactions (delete_transaction s uid tid) =
          filter (\<lambda>t. \<not> (txn_id t = tid \<and> user_id t = uid)) (transactions s)"
    by (simp add: delete_transaction_def)
  also have "\<dots> = filter (\<lambda>t. user_id t \<noteq> uid \<or> txn_id t \<noteq> tid) (transactions s)"
    by (rule filter_cong) auto
  finally have "transactions (delete_transaction s uid tid) =
           filter (\<lambda>t. user_id t \<noteq> uid \<or> txn_id t \<noteq> tid) (transactions s)" .
  moreover have "users (delete_transaction s uid tid) = users s"
    by (simp add: delete_transaction_def)
  ultimately show ?thesis by auto
qed

text \<open>
  C9 on the example ledger. Transaction 1 belongs to user 1. Asked for by user 2, it
  stays and the table is unchanged; asked for by user 1, it goes and transactions 2, 3
  and 4 stay.
\<close>

theorem delete_transaction_frame_witness:
  "transactions (delete_transaction ledger 2 1) =
     filter (\<lambda>t. user_id t \<noteq> 2 \<or> txn_id t \<noteq> 1) (transactions ledger) \<and>
   transactions (delete_transaction ledger 2 1) = transactions ledger \<and>
   transactions (delete_transaction ledger 1 1) =
     filter (\<lambda>t. user_id t \<noteq> 1 \<or> txn_id t \<noteq> 1) (transactions ledger) \<and>
   map txn_id (transactions (delete_transaction ledger 1 1)) = [2, 3, 4] \<and>
   users (delete_transaction ledger 1 1) = users ledger"
proof -
  note other = delete_transaction_frame [of ledger 2 1]
  note owner = delete_transaction_frame [of ledger 1 1]
  have kept: "transactions (delete_transaction ledger 2 1) = transactions ledger"
    by code_simp
  have gone: "map txn_id (transactions (delete_transaction ledger 1 1)) = [2, 3, 4]"
    by code_simp
  from other owner kept gone show ?thesis
    by blast
qed

end
